theory Spec2Isabelle
  imports Complex_Main "HOL-Library.Sublist"
begin

section \<open>Linpama package manager widget: a shallow embedding\<close>

text \<open>
  The theory follows \<^verbatim>\<open>y-package-manager.py\<close> (class \<^verbatim>\<open>LinexinPackageManager\<close>).
  Python strings are \<^typ>\<open>string\<close>, one \<^typ>\<open>char\<close> per code point below 256.
  What the operating system, the user and the child processes do is an explicit input
  of each function.
\<close>

subsection \<open>Persisted configuration (\<^verbatim>\<open>should_show_warning\<close>)\<close>

text \<open>
  A value as \<^verbatim>\<open>json.load\<close> returns it. A parsed object is a Python dict; it is kept
  as an association list that holds each key once, and read with \<^const>\<open>map_of\<close>. A
  float is the rational it stands for.
\<close>

datatype json =
    JNull
  | JBool bool
  | JInt int
  | JFloat rat
  | JString string
  | JArray "json list"
  | JObject "(string \<times> json) list"

text \<open>
  What \<^verbatim>\<open>CONFIG_FILE\<close> is on disk when the widget starts: no such path, a path that
  \<^verbatim>\<open>open\<close> cannot read, text that \<^verbatim>\<open>json.load\<close> rejects, or text it parses.
\<close>

datatype config_file =
    Absent
  | Unreadable
  | InvalidJson
  | Parsed json

text \<open>Python's truth value of a parsed JSON value, as \<^verbatim>\<open>if\<close> tests it.\<close>

fun truthy :: "json \<Rightarrow> bool" where
  "truthy JNull = False"
| "truthy (JBool b) = b"
| "truthy (JInt i) = (i \<noteq> 0)"
| "truthy (JFloat x) = (x \<noteq> 0)"
| "truthy (JString s) = (s \<noteq> [])"
| "truthy (JArray xs) = (xs \<noteq> [])"
| "truthy (JObject kvs) = (kvs \<noteq> [])"

text \<open>
  \<^verbatim>\<open>config.get("show_warning", True)\<close>: only a dict has \<^verbatim>\<open>get\<close>; on any other value
  the call raises \<^verbatim>\<open>AttributeError\<close>, which is \<^const>\<open>None\<close> here.
\<close>

fun config_get :: "json \<Rightarrow> string \<Rightarrow> json \<Rightarrow> json option" where
  "config_get (JObject kvs) k d = Some (case map_of kvs k of None \<Rightarrow> d | Some v \<Rightarrow> v)"
| "config_get _ k d = None"

text \<open>
  \<^verbatim>\<open>should_show_warning\<close>: the value returned is the Python object, not a bool.
\<close>

fun should_show_warning :: "config_file \<Rightarrow> json" where
  "should_show_warning Absent = JBool True"
| "should_show_warning Unreadable = JBool True"
| "should_show_warning InvalidJson = JBool True"
| "should_show_warning (Parsed config) =
     (case config_get config ''show_warning'' (JBool True) of
        None \<Rightarrow> JBool True
      | Some v \<Rightarrow> v)"

datatype view = warning_view | search_view | pkgbuild_view | progress_view | info_view

text \<open>
  The end of \<^verbatim>\<open>__init__\<close>: \<^verbatim>\<open>if self.should_show_warning(): ... "warning_view"
  else: ... "search_view"\<close>.
\<close>

definition initial_view :: "config_file \<Rightarrow> view" where
  "initial_view cfg = (if truthy (should_show_warning cfg) then warning_view else search_view)"

fun has_show_warning :: "config_file \<Rightarrow> bool" where
  "has_show_warning (Parsed (JObject kvs)) = (map_of kvs ''show_warning'' \<noteq> None)"
| "has_show_warning _ = False"

subsection \<open>Python string operations used by the search\<close>

abbreviation newline :: char where
  "newline \<equiv> CHR 0x0A"

abbreviation space :: char where
  "space \<equiv> CHR '' ''"

text \<open>
  \<^verbatim>\<open>str.isspace\<close> on one code point below 256: tab to carriage return, the four
  separators 0x1C to 0x1F, the space, NEL (0x85) and the no-break space (0xA0).
\<close>

definition is_space :: "char \<Rightarrow> bool" where
  "is_space c =
     (c \<in> set [CHR 0x09, CHR 0x0A, CHR 0x0B, CHR 0x0C, CHR 0x0D,
               CHR 0x1C, CHR 0x1D, CHR 0x1E, CHR 0x1F, CHR 0x20, CHR 0x85, CHR 0xA0])"

definition lstrip :: "string \<Rightarrow> string" where
  "lstrip s = dropWhile is_space s"

definition rstrip :: "string \<Rightarrow> string" where
  "rstrip s = rev (dropWhile is_space (rev s))"

text \<open>\<^verbatim>\<open>s.strip()\<close>: whitespace removed at both ends.\<close>

definition strip :: "string \<Rightarrow> string" where
  "strip s = rstrip (lstrip s)"

text \<open>
  \<^verbatim>\<open>s.split(sep)\<close> for a separator of one character: every occurrence cuts, empty
  pieces are kept, and the result of splitting the empty string is \<^verbatim>\<open>['']\<close>.
\<close>

fun split_char :: "char \<Rightarrow> string \<Rightarrow> string list" where
  "split_char c [] = [[]]"
| "split_char c (x # xs) =
     (if x = c then [] # split_char c xs
      else (case split_char c xs of
              [] \<Rightarrow> [[x]]
            | w # ws \<Rightarrow> (x # w) # ws))"

subsection \<open>Local index lookup (\<^verbatim>\<open>perform_search\<close>, lines 546 to 579)\<close>

text \<open>The dict built for one search result.\<close>

record package =
  name :: string
  repo :: string
  version :: string
  installed :: bool
  desc :: string
  is_aur :: bool

datatype py_error = IndexError | ValueError | KeyError | OSError

text \<open>
  The body of the \<^verbatim>\<open>if not line.startswith('    ')\<close> branch after the pending record
  has been appended: \<^verbatim>\<open>parts[1]\<close> raises \<^verbatim>\<open>IndexError\<close> when the line has no
  space, and unpacking \<^verbatim>\<open>full_name.split('/')\<close> into two names raises
  \<^verbatim>\<open>ValueError\<close> when the name holds more than one slash.
\<close>

definition parse_header :: "string \<Rightarrow> py_error + package" where
  "parse_header line =
     (case split_char space line of
        full_name # ver # _ \<Rightarrow>
          (case (if CHR ''/'' \<in> set full_name
                 then (case split_char (CHR ''/'') full_name of
                         [r, n] \<Rightarrow> Inr (r, n)
                       | _ \<Rightarrow> Inl ValueError)
                 else Inr (''local'', full_name)) of
             Inl e \<Rightarrow> Inl e
           | Inr (r, n) \<Rightarrow>
               Inr \<lparr> name = n, repo = r, version = ver,
                     installed = sublist ''[installed]'' line,
                     desc = '''', is_aur = False \<rparr>)
      | _ \<Rightarrow> Inl IndexError)"

text \<open>
  The \<^verbatim>\<open>for line in lines\<close> loop. The state is \<^verbatim>\<open>results\<close> and \<^verbatim>\<open>current_pkg\<close>;
  an exception leaves the loop with both as they are at the raise, which is the third
  component.
\<close>

fun parse_lines ::
  "string list \<Rightarrow> package list \<Rightarrow> package option
     \<Rightarrow> package list \<times> package option \<times> py_error option" where
  "parse_lines [] results current_pkg = (results, current_pkg, None)"
| "parse_lines (line # rest) results current_pkg =
     (if \<not> prefix ''    '' line then
        (let results' = (case current_pkg of
                           Some p \<Rightarrow> results @ [p]
                         | None \<Rightarrow> results)
         in case parse_header line of
              Inl e \<Rightarrow> (results', current_pkg, Some e)
            | Inr p \<Rightarrow> parse_lines rest results' (Some p))
      else
        (case current_pkg of
           Some p \<Rightarrow> parse_lines rest results (Some (p\<lparr>desc := strip line\<rparr>))
         | None \<Rightarrow> parse_lines rest results None))"

text \<open>
  What \<^verbatim>\<open>subprocess.run(["pacman", "-Ss", query], ...)\<close> does: it raises (no such
  program), or it returns the exit code and the captured standard output.
\<close>

datatype run_result = RunRaised | Completed int string

text \<open>
  The loop over \<^verbatim>\<open>lines\<close> together with the \<^verbatim>\<open>if current_pkg: results.append(current_pkg)\<close>
  that follows it: the value of \<^verbatim>\<open>results\<close> when the \<^verbatim>\<open>try\<close> block is left,
  normally or through \<^verbatim>\<open>except Exception\<close> (which skips the final append).
\<close>

definition parse_output :: "string list \<Rightarrow> package list" where
  "parse_output lines =
     (case parse_lines lines [] None of
        (results, current_pkg, Some e) \<Rightarrow> results
      | (results, current_pkg, None) \<Rightarrow>
          (case current_pkg of
             Some p \<Rightarrow> results @ [p]
           | None \<Rightarrow> results))"

text \<open>
  The \<^verbatim>\<open>try\<close> block without its checkpoint: \<^verbatim>\<open>results\<close> stays empty when
  \<^verbatim>\<open>subprocess.run\<close> raises, when the exit code is not 0 and when nothing was printed.
\<close>

definition local_lookup :: "run_result \<Rightarrow> package list" where
  "local_lookup r =
     (case r of
        RunRaised \<Rightarrow> []
      | Completed returncode stdout \<Rightarrow>
          (if returncode = 0 \<and> stdout \<noteq> []
           then parse_output (split_char newline (strip stdout))
           else []))"

text \<open>A header line on which the loop raises.\<close>

definition malformed :: "string \<Rightarrow> bool" where
  "malformed line = (\<not> prefix ''    '' line \<and> isl (parse_header line))"

text \<open>The lines on which the loop does not raise.\<close>

definition well_formed :: "string \<Rightarrow> bool" where
  "well_formed line = (prefix ''    '' line \<or> \<not> isl (parse_header line))"

text \<open>
  A header line as \<^verbatim>\<open>pacman -Ss\<close> prints it, \<^verbatim>\<open>repo/name version\<close> with an optional
  rest such as \<^verbatim>\<open> [installed]\<close>.
\<close>

definition header :: "string \<Rightarrow> string \<Rightarrow> string \<Rightarrow> string \<Rightarrow> string" where
  "header r n v t = r @ ''/'' @ n @ '' '' @ v @ t"

text \<open>
  The parts of such a line: repository and version are not empty, no part of the name
  holds whitespace or a slash, the version holds no whitespace, and the rest is empty or
  starts with a space, stays on the line and does not end in whitespace.
\<close>

definition header_ok :: "string \<Rightarrow> string \<Rightarrow> string \<Rightarrow> string \<Rightarrow> bool" where
  "header_ok r n v t =
     (r \<noteq> [] \<and> v \<noteq> [] \<and>
      list_all (\<lambda>c. \<not> is_space c \<and> c \<noteq> CHR ''/'') (r @ n) \<and>
      list_all (\<lambda>c. \<not> is_space c) v \<and>
      (t = [] \<or> (hd t = space \<and> newline \<notin> set t \<and> \<not> is_space (last t))))"

subsection \<open>Searching (\<^verbatim>\<open>on_search_changed\<close>, \<^verbatim>\<open>trigger_search\<close>, \<^verbatim>\<open>perform_search\<close>)\<close>






text \<open>
  Where a thread running \<^verbatim>\<open>perform_search\<close> is: before line 544, inside
  \<^verbatim>\<open>subprocess.run\<close>, inside \<^verbatim>\<open>urlopen\<close> with the local results so far, or at its end.
\<close>

datatype search_pc = Entry | InLocal | InRemote "package list" | Done

record search_thread =
  query :: string
  search_id :: nat
  pc :: search_pc



















subsection \<open>The widget and what it acts on\<close>

type_synonym path = string

text \<open>A regular file: its text and its permission bits.\<close>

record regular_file =
  content :: string
  mode :: nat

datatype signal = SIGINT | SIGTERM | SIGKILL

text \<open>
  What a signal is sent to: one process (\<^verbatim>\<open>os.kill\<close>, \<^verbatim>\<open>Popen.send_signal\<close>) or every
  process of a group (\<^verbatim>\<open>os.killpg\<close>).
\<close>

datatype target = Process nat | ProcessGroup nat

text \<open>
  A child process as \<^verbatim>\<open>subprocess.Popen\<close> starts it: its process id, its argument
  vector and the environment it is given.
\<close>

record child =
  pid :: nat
  argv :: "string list"
  child_env :: "string \<rightharpoonup> string"

text \<open>
  The target of a worker thread: \<^verbatim>\<open>execute_shell(command, pkg_name)\<close> or the
  \<^verbatim>\<open>clone_task\<close> closure of \<^verbatim>\<open>start_aur_review_process\<close> for a package name.
\<close>

datatype job = ShellJob string string | CloneJob string

text \<open>
  A worker thread is either started and has not called \<^verbatim>\<open>Popen\<close> yet, or it waits
  for the child with the given process id.
\<close>

datatype worker = Started job | Waiting job nat

text \<open>
  The \<^verbatim>\<open>callback_success\<close> closures handed to \<^verbatim>\<open>prompt_for_password\<close>:
  \<^verbatim>\<open>lambda: self.run_transaction(name)\<close> and \<^verbatim>\<open>lambda: self.run_aur_build()\<close>.
\<close>

datatype callback = RunTransaction string | RunAurBuild

text \<open>
  The attributes of \<^verbatim>\<open>self\<close> that the transaction code reads or writes, the widgets
  it drives (the visible page of \<^verbatim>\<open>content_stack\<close>, the two text buffers, the Back and
  Cancel buttons, the status and result labels), the open credential dialogs, and the
  part of the system it acts on: worker threads, live child processes, signals sent,
  files, directories and the process environment. An attribute that \<^verbatim>\<open>__init__\<close> does
  not set is \<^const>\<open>None\<close> until its first assignment. The progress bar, its pulse
  timer, the titles and the details revealer are presentation only and are left out;
  \<^verbatim>\<open>_\<close> (gettext) is the identity.

  \<^verbatim>\<open>foreign\<close> holds the paths of the files that belong to another user (\<^verbatim>\<open>os.chmod\<close>
  on them raises \<^verbatim>\<open>PermissionError\<close>). \<^verbatim>\<open>create_mode\<close> is the mode a newly created file gets
  (\<^verbatim>\<open>0o666\<close> without the bits of the umask).
\<close>

record widget =
  user_password :: "string option"
  process_in_progress :: bool
  current_package_name :: string
  current_process :: "nat option"
  action_type :: "string option"
  target_pkg :: "package option"
  aur_temp_dir :: "path option"
  aur_pkg_name :: "string option"
  visible_child :: view
  output_buffer :: string
  pkgbuild_buffer :: string
  btn_back_sensitive :: bool
  btn_cancel_visible :: bool
  lbl_progress_status :: string
  info_text :: string
  dialogs :: "callback list"
  workers :: "worker list"
  children :: "child list"
  signals :: "(target \<times> signal) list"
  files :: "path \<rightharpoonup> regular_file"
  foreign :: "path set"
  create_mode :: nat
  dirs :: "path set"
  environ :: "string \<rightharpoonup> string"

definition APP_NAME :: string where
  "APP_NAME = ''linpama''"

text \<open>\<^verbatim>\<open>str.upper\<close> and \<^verbatim>\<open>str.replace\<close> on ASCII text; they are applied to \<^const>\<open>APP_NAME\<close> only.\<close>

definition upper_char :: "char \<Rightarrow> char" where
  "upper_char c =
     (let k = (of_char c :: nat) in if 97 \<le> k \<and> k \<le> 122 then char_of (k - 32) else c)"

definition upper :: "string \<Rightarrow> string" where
  "upper s = map upper_char s"

definition replace_char :: "char \<Rightarrow> char \<Rightarrow> string \<Rightarrow> string" where
  "replace_char a b s = map (\<lambda>c. if c = a then b else c) s"

text \<open>\<^verbatim>\<open>f"{APP_NAME.upper().replace('-', '_')}_SUDO_PW"\<close>\<close>

definition env_var_name :: string where
  "env_var_name = replace_char (CHR ''-'') (CHR ''_'') (upper APP_NAME) @ ''_SUDO_PW''"

text \<open>\<^verbatim>\<open>self.askpass_script\<close> and \<^verbatim>\<open>self.sudo_wrapper\<close>, set once in \<^verbatim>\<open>__init__\<close>.\<close>

definition askpass_script :: path where
  "askpass_script = ''/tmp/'' @ APP_NAME @ ''-askpass.sh''"

definition sudo_wrapper :: path where
  "sudo_wrapper = ''/tmp/'' @ APP_NAME @ ''-sudo.sh''"

abbreviation dquote :: char where
  "dquote \<equiv> CHR 0x22"

abbreviation squote :: char where
  "squote \<equiv> CHR 0x27"

text \<open>The text written to the askpass helper: \<^verbatim>\<open>#!/bin/sh\<close>, then \<^verbatim>\<open>echo "$NAME_SUDO_PW"\<close>.\<close>

definition askpass_text :: string where
  "askpass_text =
     ''#!/bin/sh'' @ [newline] @ ''echo '' @ [dquote] @ ''$'' @ env_var_name @ [dquote] @ [newline]"

text \<open>
  The text written to the wrapper: \<^verbatim>\<open>#!/bin/sh\<close>, \<^verbatim>\<open>export SUDO_ASKPASS='...'\<close> and
  \<^verbatim>\<open>exec sudo -A "$@"\<close>.
\<close>

definition wrapper_text :: string where
  "wrapper_text =
     ''#!/bin/sh'' @ [newline] @ ''export SUDO_ASKPASS='' @ [squote] @ askpass_script @ [squote]
       @ [newline] @ ''exec sudo -A '' @ [dquote] @ ''$@'' @ [dquote] @ [newline]"

text \<open>The write bit for others, \<^verbatim>\<open>0o002\<close>, of a mode.\<close>

definition other_writable :: "nat \<Rightarrow> bool" where
  "other_writable m = ((m div 2) mod 2 = 1)"

text \<open>
  \<^verbatim>\<open>with open(path, "w") as f: f.write(text)\<close>: a new file is created with the default
  mode; an existing one is truncated and keeps its mode, and opening it raises when it
  belongs to another user and is not writable for others.
\<close>

definition write_file :: "path \<Rightarrow> string \<Rightarrow> widget \<Rightarrow> py_error + widget" where
  "write_file p text s =
     (case files s p of
        None \<Rightarrow> Inr (s\<lparr>files := (files s)(p \<mapsto> \<lparr>content = text, mode = create_mode s\<rparr>)\<rparr>)
      | Some f \<Rightarrow>
          (if p \<in> foreign s \<and> \<not> other_writable (mode f) then Inl OSError
           else Inr (s\<lparr>files := (files s)(p \<mapsto> f\<lparr>content := text\<rparr>)\<rparr>)))"

text \<open>\<^verbatim>\<open>os.chmod(path, m)\<close>\<close>

definition chmod :: "path \<Rightarrow> nat \<Rightarrow> widget \<Rightarrow> py_error + widget" where
  "chmod p m s =
     (case files s p of
        None \<Rightarrow> Inl OSError
      | Some f \<Rightarrow>
          (if p \<in> foreign s then Inl OSError
           else Inr (s\<lparr>files := (files s)(p \<mapsto> f\<lparr>mode := m\<rparr>)\<rparr>)))"

text \<open>The mode \<^verbatim>\<open>0o700\<close>: read, write and execute for the owner, nothing for others.\<close>

definition mode_0o700 :: nat where
  "mode_0o700 = 7 * 8 * 8"

text \<open>
  \<^verbatim>\<open>setup_sudo_env\<close>. The four steps run in order; an exception ends the method with the
  steps before it done. The result is the state and the exception, if any.
\<close>

definition setup_sudo_env :: "widget \<Rightarrow> widget \<times> py_error option" where
  "setup_sudo_env s =
     (case write_file askpass_script askpass_text s of
        Inl e \<Rightarrow> (s, Some e)
      | Inr s1 \<Rightarrow>
     (case chmod askpass_script mode_0o700 s1 of
        Inl e \<Rightarrow> (s1, Some e)
      | Inr s2 \<Rightarrow>
     (case write_file sudo_wrapper wrapper_text s2 of
        Inl e \<Rightarrow> (s2, Some e)
      | Inr s3 \<Rightarrow>
     (case chmod sudo_wrapper mode_0o700 s3 of
        Inl e \<Rightarrow> (s3, Some e)
      | Inr s4 \<Rightarrow> (s4, None)))))"

text \<open>\<^verbatim>\<open>not self.user_password\<close>: no credential, or an empty one.\<close>

definition no_password :: "widget \<Rightarrow> bool" where
  "no_password s = (case user_password s of None \<Rightarrow> True | Some pw \<Rightarrow> pw = [])"

text \<open>\<^verbatim>\<open>append_log\<close>\<close>

definition append_log :: "string \<Rightarrow> widget \<Rightarrow> widget" where
  "append_log text s = s\<lparr>output_buffer := output_buffer s @ text\<rparr>"

text \<open>
  \<^verbatim>\<open>prompt_for_password\<close> builds the dialog around \<^verbatim>\<open>callback_success\<close> and presents it.
\<close>

definition prompt_for_password :: "callback \<Rightarrow> widget \<Rightarrow> widget" where
  "prompt_for_password callback_success s = s\<lparr>dialogs := dialogs s @ [callback_success]\<rparr>"

text \<open>
  \<^verbatim>\<open>run_transaction\<close>. When \<^verbatim>\<open>setup_sudo_env\<close> raises, the method ends there. The
  comparison \<^verbatim>\<open>self.action_type == "remove"\<close> raises \<^verbatim>\<open>AttributeError\<close> when the
  attribute was never set, after the page and the buttons have been changed. Otherwise
  the last statement starts the worker thread.
\<close>

definition run_transaction :: "string \<Rightarrow> widget \<Rightarrow> widget" where
  "run_transaction package_name s =
     (case setup_sudo_env s of
        (s1, Some e) \<Rightarrow> s1
      | (s1, None) \<Rightarrow>
          (let s2 = s1\<lparr>visible_child := progress_view, output_buffer := [],
                       btn_back_sensitive := False, process_in_progress := True,
                       current_package_name := package_name, btn_cancel_visible := True\<rparr>
           in case action_type s2 of
                None \<Rightarrow> s2
              | Some a \<Rightarrow>
                  (if a = ''remove''
                   then s2\<lparr>lbl_progress_status := ''Removing package...'',
                           workers := workers s2 @
                             [Started (ShellJob
                                (sudo_wrapper @ '' pacman -Rns --noconfirm '' @ package_name)
                                package_name)]\<rparr>
                   else s2\<lparr>lbl_progress_status := ''Downloading and installing...'',
                           workers := workers s2 @
                             [Started (ShellJob
                                (sudo_wrapper @ '' pacman -S --noconfirm --needed '' @ package_name)
                                package_name)]\<rparr>)))"

text \<open>
  \<^verbatim>\<open>start_aur_review_process\<close>. The second argument is the path that
  \<^verbatim>\<open>tempfile.mkdtemp\<close> has created, or \<^const>\<open>None\<close> when it raises.
\<close>

definition start_aur_review_process :: "string \<Rightarrow> path option \<Rightarrow> widget \<Rightarrow> widget" where
  "start_aur_review_process package_name mkdtemp s =
     (case mkdtemp of
        None \<Rightarrow> s
      | Some d \<Rightarrow>
          s\<lparr>dirs := insert d (dirs s), aur_temp_dir := Some d,
            aur_pkg_name := Some package_name, current_package_name := package_name,
            visible_child := progress_view,
            output_buffer := ''Fetching '' @ package_name @ '' from AUR...'',
            btn_back_sensitive := False, btn_cancel_visible := True,
            lbl_progress_status := ''Cloning repository...'',
            workers := workers s @ [Started (CloneJob package_name)]\<rparr>)"

text \<open>\<^verbatim>\<open>initiate_install\<close> and \<^verbatim>\<open>initiate_remove\<close>\<close>

definition initiate_install :: "package \<Rightarrow> path option \<Rightarrow> widget \<Rightarrow> widget" where
  "initiate_install pkg mkdtemp s =
     (let s1 = s\<lparr>action_type := Some ''install'', target_pkg := Some pkg\<rparr>
      in if is_aur pkg then start_aur_review_process (name pkg) mkdtemp s1
         else if no_password s1 then prompt_for_password (RunTransaction (name pkg)) s1
         else run_transaction (name pkg) s1)"

definition initiate_remove :: "string \<Rightarrow> widget \<Rightarrow> widget" where
  "initiate_remove package_name s =
     (let s1 = s\<lparr>action_type := Some ''remove''\<rparr>
      in if no_password s1 then prompt_for_password (RunTransaction package_name) s1
         else run_transaction package_name s1)"

subsection \<open>Running a command (\<^verbatim>\<open>execute_shell\<close>, \<^verbatim>\<open>on_process_finished\<close>)\<close>

text \<open>
  \<^verbatim>\<open>on_process_finished\<close>, run on the main loop. It removes the clone directory when
  the attribute is set and the path exists (\<^verbatim>\<open>shutil.rmtree\<close> on a directory that
  \<^verbatim>\<open>mkdtemp\<close> made for this user is taken to succeed). \<^verbatim>\<open>self.action_type\<close> is set
  whenever a command has been started. On success the handler also empties the search
  entry, which is the event \<open>Changed []\<close> of the search side.
\<close>

definition on_process_finished :: "bool \<Rightarrow> string \<Rightarrow> widget \<Rightarrow> widget" where
  "on_process_finished success pkg_name s =
     (let s1 = s\<lparr>process_in_progress := False, current_process := None\<rparr>;
          s2 = (case aur_temp_dir s1 of
                  None \<Rightarrow> s1
                | Some d \<Rightarrow> if d \<in> dirs s1 then s1\<lparr>dirs := dirs s1 - {d}\<rparr> else s1)
      in if success then
           s2\<lparr>info_text :=
                 (if action_type s2 = Some ''remove''
                  then ''Successfully removed '' @ pkg_name
                  else ''Successfully installed '' @ pkg_name),
              visible_child := info_view\<rparr>
         else
           append_log ([newline, newline] @ ''Transaction Failed.'')
             (s2\<lparr>lbl_progress_status := ''Failed or Cancelled.'',
                 btn_back_sensitive := True, btn_cancel_visible := False\<rparr>))"

text \<open>
  The environment that \<^verbatim>\<open>execute_shell\<close> hands to the child: a copy of
  \<^verbatim>\<open>os.environ\<close>, with the credential under \<^const>\<open>env_var_name\<close> when there is one.
\<close>

definition execute_shell_env :: "widget \<Rightarrow> (string \<rightharpoonup> string)" where
  "execute_shell_env s =
     (case user_password s of
        None \<Rightarrow> environ s
      | Some pw \<Rightarrow> if pw = [] then environ s else (environ s)(env_var_name \<mapsto> pw))"

text \<open>The thread of a worker ends: it leaves the list (the first equal entry does).\<close>

definition end_worker :: "worker \<Rightarrow> widget \<Rightarrow> widget" where
  "end_worker w s = s\<lparr>workers := remove1 w (workers s)\<rparr>"

text \<open>A child has exited and has been waited for.\<close>

definition reap :: "nat \<Rightarrow> widget \<Rightarrow> widget" where
  "reap p s = s\<lparr>children := filter (\<lambda>c. pid c \<noteq> p) (children s)\<rparr>"

text \<open>
  The first part of \<^verbatim>\<open>execute_shell\<close>, up to \<^verbatim>\<open>Popen\<close>. The third argument is what
  \<^verbatim>\<open>Popen\<close> does: it raises with a message, or it starts a child with a process id.
  When it raises, the \<^verbatim>\<open>except\<close> branch queues the error text and
  \<^verbatim>\<open>on_process_finished(False, pkg_name)\<close>, and the main loop runs both.
\<close>

definition execute_shell_popen :: "string \<Rightarrow> string \<Rightarrow> string + nat \<Rightarrow> widget \<Rightarrow> widget" where
  "execute_shell_popen command pkg_name popen s =
     (case popen of
        Inl msg \<Rightarrow>
          on_process_finished False pkg_name
            (append_log ([newline] @ ''Error: '' @ msg)
               (end_worker (Started (ShellJob command pkg_name)) s))
      | Inr p \<Rightarrow>
          s\<lparr>current_process := Some p,
            children := children s @
              [\<lparr>pid = p, argv = [''/bin/sh'', ''-c'', command],
                child_env = execute_shell_env s\<rparr>],
            workers := Waiting (ShellJob command pkg_name) p #
                         remove1 (Started (ShellJob command pkg_name)) (workers s)\<rparr>)"

text \<open>
  How the read loop and \<^verbatim>\<open>wait()\<close> end: the child exits with a return code, or
  reading raises (the output is not valid text, say) while the child is still there.
\<close>

datatype shell_end = Exit int | ReadRaised string

text \<open>The value of \<^verbatim>\<open>success\<close> when \<^verbatim>\<open>execute_shell\<close> reaches its last line.\<close>

fun success :: "shell_end \<Rightarrow> bool" where
  "success (Exit rc) = (rc = 0)"
| "success (ReadRaised msg) = False"

text \<open>
  The rest of \<^verbatim>\<open>execute_shell\<close>: every non-empty line read is queued for
  \<^verbatim>\<open>append_log\<close>, then the error text if reading raised, then
  \<^verbatim>\<open>on_process_finished(success, pkg_name)\<close>; the main loop runs them in this order.
\<close>

definition execute_shell_wait ::
  "string \<Rightarrow> string \<Rightarrow> nat \<Rightarrow> string list \<Rightarrow> shell_end \<Rightarrow> widget \<Rightarrow> widget" where
  "execute_shell_wait command pkg_name p lines e s =
     (let s1 = foldl (\<lambda>s' line. append_log line s')
                 (end_worker (Waiting (ShellJob command pkg_name) p) s)
                 (filter (\<lambda>line. line \<noteq> []) lines);
          s2 = (case e of
                  Exit rc \<Rightarrow> reap p s1
                | ReadRaised msg \<Rightarrow> append_log ([newline] @ ''Error: '' @ msg) s1)
      in on_process_finished (success e) pkg_name s2)"

text \<open>One whole run of \<^verbatim>\<open>execute_shell\<close>, from what the system does with the command.\<close>

datatype shell_run = PopenRaised string | Ran nat "string list" shell_end

definition execute_shell :: "string \<Rightarrow> string \<Rightarrow> shell_run \<Rightarrow> widget \<Rightarrow> widget" where
  "execute_shell command pkg_name run s =
     (case run of
        PopenRaised msg \<Rightarrow> execute_shell_popen command pkg_name (Inl msg) s
      | Ran p lines e \<Rightarrow>
          execute_shell_wait command pkg_name p lines e
            (execute_shell_popen command pkg_name (Inr p) s))"

subsection \<open>The AUR pipeline\<close>

text \<open>\<^verbatim>\<open>show_pkgbuild_content\<close> and \<^verbatim>\<open>show_aur_error\<close>\<close>

definition show_pkgbuild_content :: "string \<Rightarrow> widget \<Rightarrow> widget" where
  "show_pkgbuild_content text s =
     s\<lparr>pkgbuild_buffer := text, visible_child := pkgbuild_view, current_process := None\<rparr>"

definition show_aur_error :: "string \<Rightarrow> widget \<Rightarrow> widget" where
  "show_aur_error message s =
     s\<lparr>output_buffer := message, btn_back_sensitive := True, btn_cancel_visible := False\<rparr>"

text \<open>
  \<^verbatim>\<open>clone_task\<close> up to \<^verbatim>\<open>Popen\<close>. An exception (a missing attribute, or \<^verbatim>\<open>Popen\<close>
  raising because there is no \<^verbatim>\<open>git\<close>) goes to \<^verbatim>\<open>show_aur_error\<close>.
\<close>

definition clone_popen :: "string \<Rightarrow> string + nat \<Rightarrow> widget \<Rightarrow> widget" where
  "clone_popen package_name popen s =
     (case aur_temp_dir s of
        None \<Rightarrow>
          show_aur_error
            (''Error: '' @ [squote] @ ''LinexinPackageManager'' @ [squote]
               @ '' object has no attribute '' @ [squote] @ ''aur_temp_dir'' @ [squote])
            (end_worker (Started (CloneJob package_name)) s)
      | Some d \<Rightarrow>
          (case popen of
             Inl msg \<Rightarrow>
               show_aur_error (''Error: '' @ msg)
                 (end_worker (Started (CloneJob package_name)) s)
           | Inr p \<Rightarrow>
               s\<lparr>current_process := Some p,
                 children := children s @
                   [\<lparr>pid = p,
                     argv = [''git'', ''clone'',
                             ''https://aur.archlinux.org/'' @ package_name @ ''.git'', d],
                     child_env = environ s\<rparr>],
                 workers := Waiting (CloneJob package_name) p #
                              remove1 (Started (CloneJob package_name)) (workers s)\<rparr>))"

text \<open>
  What \<^verbatim>\<open>clone_task\<close> finds at \<^verbatim>\<open>PKGBUILD\<close> in the clone directory: no such file, a
  file it reads, or a file on which \<^verbatim>\<open>open\<close> or \<^verbatim>\<open>read\<close> raises.
\<close>

datatype pkgbuild = NoPkgbuild | PkgbuildText string | PkgbuildRaised string

text \<open>\<^verbatim>\<open>clone_task\<close> after \<^verbatim>\<open>wait()\<close> has returned the exit code of the clone.\<close>

definition clone_wait :: "string \<Rightarrow> nat \<Rightarrow> int \<Rightarrow> pkgbuild \<Rightarrow> widget \<Rightarrow> widget" where
  "clone_wait package_name p returncode pb s =
     (let s1 = reap p (end_worker (Waiting (CloneJob package_name) p) s)
      in if returncode = 0 then
           (case pb of
              PkgbuildText text \<Rightarrow> show_pkgbuild_content text s1
            | NoPkgbuild \<Rightarrow> show_aur_error ''PKGBUILD not found in cloned repository.'' s1
            | PkgbuildRaised msg \<Rightarrow> show_aur_error (''Error: '' @ msg) s1)
         else show_aur_error ''Clone failed or cancelled.'' s1)"

text \<open>\<^verbatim>\<open>on_pkgbuild_cancel\<close>\<close>

definition on_pkgbuild_cancel :: "widget \<Rightarrow> widget" where
  "on_pkgbuild_cancel s =
     (let s1 = (case aur_temp_dir s of
                  None \<Rightarrow> s
                | Some d \<Rightarrow> if d \<in> dirs s then s\<lparr>dirs := dirs s - {d}\<rparr> else s)
      in s1\<lparr>visible_child := search_view\<rparr>)"

text \<open>
  \<^verbatim>\<open>run_aur_build\<close>. Reading \<^verbatim>\<open>self.aur_pkg_name\<close> for the title raises when the
  attribute is not set, after the page has been changed and the buffer cleared;
  reading \<^verbatim>\<open>self.aur_temp_dir\<close> for the command raises when that attribute is not set,
  after the status, the Cancel button and the package name have been set.
\<close>

definition run_aur_build :: "widget \<Rightarrow> widget" where
  "run_aur_build s =
     (case setup_sudo_env s of
        (s1, Some e) \<Rightarrow> s1
      | (s1, None) \<Rightarrow>
          (let s2 = s1\<lparr>visible_child := progress_view, output_buffer := []\<rparr>
           in case aur_pkg_name s2 of
                None \<Rightarrow> s2
              | Some n \<Rightarrow>
                  (let s3 = s2\<lparr>lbl_progress_status := ''Compiling package...'',
                               btn_cancel_visible := True, current_package_name := n\<rparr>
                   in case aur_temp_dir s3 of
                        None \<Rightarrow> s3
                      | Some d \<Rightarrow>
                          s3\<lparr>workers := workers s3 @
                               [Started (ShellJob
                                  (''cd '' @ d @ '' && export SUDO_ASKPASS='' @ [squote]
                                     @ askpass_script @ [squote]
                                     @ '' && makepkg -si --noconfirm'')
                                  n)]\<rparr>)))"

text \<open>\<^verbatim>\<open>on_pkgbuild_proceed\<close>\<close>

definition on_pkgbuild_proceed :: "widget \<Rightarrow> widget" where
  "on_pkgbuild_proceed s =
     (if no_password s then prompt_for_password RunAurBuild s else run_aur_build s)"

subsection \<open>The credential dialog, Cancel and the other buttons\<close>

fun callback_success :: "callback \<Rightarrow> widget \<Rightarrow> widget" where
  "callback_success (RunTransaction package_name) s = run_transaction package_name s"
| "callback_success RunAurBuild s = run_aur_build s"

text \<open>
  \<^verbatim>\<open>on_response\<close> of the dialog opened first, with the response id and the text of the
  password entry; pressing Enter in the entry is the response \<^verbatim>\<open>unlock\<close>. The dialog
  is closed whatever the response.
\<close>

definition on_response :: "string \<Rightarrow> string \<Rightarrow> widget \<Rightarrow> widget" where
  "on_response response pwd s =
     (case dialogs s of
        [] \<Rightarrow> s
      | cb # rest \<Rightarrow>
          (let s1 = s\<lparr>dialogs := rest\<rparr>
           in if response = ''unlock'' \<and> pwd \<noteq> []
              then callback_success cb (s1\<lparr>user_password := Some pwd\<rparr>)
              else s1))"

text \<open>
  \<^verbatim>\<open>Popen.send_signal\<close>: the signal goes to the process of the handle (\<^verbatim>\<open>os.kill\<close> on
  its process id). Nothing is sent when that process has ended.
\<close>

definition send_signal :: "nat \<Rightarrow> signal \<Rightarrow> widget \<Rightarrow> widget" where
  "send_signal p sig s =
     (if p \<in> pid ` set (children s)
      then s\<lparr>signals := signals s @ [(Process p, sig)]\<rparr>
      else s)"

text \<open>\<^verbatim>\<open>on_cancel_clicked\<close>\<close>

definition on_cancel_clicked :: "widget \<Rightarrow> widget" where
  "on_cancel_clicked s =
     (case current_process s of
        None \<Rightarrow> s
      | Some p \<Rightarrow>
          send_signal p SIGINT
            (append_log ([newline] @ ''--- Cancelling operation... ---'' @ [newline]) s))"

text \<open>\<^verbatim>\<open>on_back_clicked\<close> and \<^verbatim>\<open>on_view_log_clicked\<close>\<close>

definition on_back_clicked :: "widget \<Rightarrow> widget" where
  "on_back_clicked s = s\<lparr>visible_child := search_view\<rparr>"

definition on_view_log_clicked :: "widget \<Rightarrow> widget" where
  "on_view_log_clicked s =
     s\<lparr>visible_child := progress_view, lbl_progress_status := ''Transaction Log'',
       btn_back_sensitive := True, btn_cancel_visible := False\<rparr>"

subsection \<open>What can happen to the widget\<close>

text \<open>
  \<^verbatim>\<open>__init__\<close>: the attributes as it sets them, the page chosen from the configuration,
  the Back button insensitive (\<^verbatim>\<open>setup_progress_view\<close>), and the system as it is found.
\<close>

definition init_widget ::
  "config_file \<Rightarrow> (path \<rightharpoonup> regular_file) \<Rightarrow> path set \<Rightarrow> nat \<Rightarrow> path set
     \<Rightarrow> (string \<rightharpoonup> string) \<Rightarrow> widget" where
  "init_widget cfg fs frgn cm ds env =
     \<lparr>user_password = None, process_in_progress = False, current_package_name = [],
      current_process = None, action_type = None, target_pkg = None,
      aur_temp_dir = None, aur_pkg_name = None,
      visible_child = initial_view cfg, output_buffer = [], pkgbuild_buffer = [],
      btn_back_sensitive = False, btn_cancel_visible = True,
      lbl_progress_status = ''Please wait...'', info_text = [],
      dialogs = [], workers = [], children = [], signals = [],
      files = fs, foreign = frgn, create_mode = cm, dirs = ds, environ = env\<rparr>"

text \<open>
  The events: a click on a button, a response of the credential dialog, and the three
  things a worker thread meets: \<^verbatim>\<open>Popen\<close> returns or raises, the command ends, the
  clone ends. A click on a row's button carries the record of the row; a click on
  Install carries what \<^verbatim>\<open>mkdtemp\<close> would return.
\<close>

datatype event =
    ClickContinue
  | ClickInstall package "path option"
  | ClickRemove string
  | Respond string string
  | ClickPkgbuildCancel
  | ClickPkgbuildProceed
  | ClickCancel
  | ClickBack
  | ClickViewLog
  | Popen job "string + nat"
  | ShellEnds string string nat "string list" shell_end
  | CloneEnds string nat int pkgbuild

text \<open>
  When GTK delivers an event. A button is clicked only while its page is the visible
  child of \<^verbatim>\<open>content_stack\<close>, it is visible and sensitive, and no credential dialog
  is open (the dialog is modal for the window). The rows with the Install and Remove
  buttons are on \<^verbatim>\<open>search_view\<close>; Back is \<^verbatim>\<open>btn_back\<close> on \<^verbatim>\<open>progress_view\<close> or
  \<^verbatim>\<open>Search Again\<close> on \<^verbatim>\<open>info_view\<close>. A worker event needs its worker, and
  \<^verbatim>\<open>Popen\<close> returns a process id that no live child has.
\<close>

fun deliverable :: "event \<Rightarrow> widget \<Rightarrow> bool" where
  "deliverable ClickContinue s = (visible_child s = warning_view \<and> dialogs s = [])"
| "deliverable (ClickInstall pkg mkdtemp) s = (visible_child s = search_view \<and> dialogs s = [])"
| "deliverable (ClickRemove package_name) s = (visible_child s = search_view \<and> dialogs s = [])"
| "deliverable (Respond response pwd) s = (dialogs s \<noteq> [])"
| "deliverable ClickPkgbuildCancel s = (visible_child s = pkgbuild_view \<and> dialogs s = [])"
| "deliverable ClickPkgbuildProceed s = (visible_child s = pkgbuild_view \<and> dialogs s = [])"
| "deliverable ClickCancel s =
     (visible_child s = progress_view \<and> btn_cancel_visible s \<and> dialogs s = [])"
| "deliverable ClickBack s =
     (((visible_child s = progress_view \<and> btn_back_sensitive s) \<or> visible_child s = info_view)
      \<and> dialogs s = [])"
| "deliverable ClickViewLog s = (visible_child s = info_view \<and> dialogs s = [])"
| "deliverable (Popen j r) s =
     (Started j \<in> set (workers s) \<and>
      (case r of Inl msg \<Rightarrow> True | Inr p \<Rightarrow> p \<notin> pid ` set (children s)))"
| "deliverable (ShellEnds command pkg_name p lines e) s =
     (Waiting (ShellJob command pkg_name) p \<in> set (workers s))"
| "deliverable (CloneEnds package_name p returncode pb) s =
     (Waiting (CloneJob package_name) p \<in> set (workers s))"

text \<open>
  The handler of each event. \<^verbatim>\<open>on_warning_continue\<close> shows the search page (the
  preference it may save is in the configuration file only).
\<close>

fun handle :: "event \<Rightarrow> widget \<Rightarrow> widget" where
  "handle ClickContinue s = s\<lparr>visible_child := search_view\<rparr>"
| "handle (ClickInstall pkg mkdtemp) s = initiate_install pkg mkdtemp s"
| "handle (ClickRemove package_name) s = initiate_remove package_name s"
| "handle (Respond response pwd) s = on_response response pwd s"
| "handle ClickPkgbuildCancel s = on_pkgbuild_cancel s"
| "handle ClickPkgbuildProceed s = on_pkgbuild_proceed s"
| "handle ClickCancel s = on_cancel_clicked s"
| "handle ClickBack s = on_back_clicked s"
| "handle ClickViewLog s = on_view_log_clicked s"
| "handle (Popen (ShellJob command pkg_name) r) s = execute_shell_popen command pkg_name r s"
| "handle (Popen (CloneJob package_name) r) s = clone_popen package_name r s"
| "handle (ShellEnds command pkg_name p lines e) s =
     execute_shell_wait command pkg_name p lines e s"
| "handle (CloneEnds package_name p returncode pb) s =
     clone_wait package_name p returncode pb s"

definition ui_step :: "event \<Rightarrow> widget \<Rightarrow> widget" where
  "ui_step e s = (if deliverable e s then handle e s else s)"

fun ui_run :: "event list \<Rightarrow> widget \<Rightarrow> widget" where
  "ui_run [] s = s"
| "ui_run (e # es) s = ui_run es (ui_step e s)"

text \<open>No read of a command's output raises in these events.\<close>

fun read_ok :: "event \<Rightarrow> bool" where
  "read_ok (ShellEnds command pkg_name p lines (ReadRaised msg)) = False"
| "read_ok e = True"

text \<open>
  How the pages keep commands apart. There is at most one worker thread; while there
  is one, the progress page is shown, its Back button is insensitive and no dialog is
  open; Back is insensitive on the review page; an open dialog is the only one, over
  the search page or the review page, and the dialog for an AUR build is over the
  review page.
\<close>

definition exclusive :: "widget \<Rightarrow> bool" where
  "exclusive s =
     (length (workers s) \<le> 1 \<and>
      (workers s = [] \<or>
         (visible_child s = progress_view \<and> \<not> btn_back_sensitive s \<and> dialogs s = [])) \<and>
      (visible_child s \<noteq> pkgbuild_view \<or> \<not> btn_back_sensitive s) \<and>
      (dialogs s = [] \<or>
         (length (dialogs s) = 1 \<and>
          (visible_child s = search_view \<or> visible_child s = pkgbuild_view))) \<and>
      (RunAurBuild \<notin> set (dialogs s) \<or> visible_child s = pkgbuild_view))"

text \<open>The process ids that the worker threads wait for.\<close>

fun waiting_pids :: "worker list \<Rightarrow> nat list" where
  "waiting_pids [] = []"
| "waiting_pids (Started j # ws) = waiting_pids ws"
| "waiting_pids (Waiting j p # ws) = p # waiting_pids ws"

text \<open>Every live child is the child of a worker thread that waits for it.\<close>

definition supervised :: "widget \<Rightarrow> bool" where
  "supervised s = (map pid (children s) = waiting_pids (workers s))"

subsection \<open>A concrete session\<close>

text \<open>
  A session to evaluate the handlers on: the warning is switched off, the helper files
  do not exist yet, new files get mode \<^verbatim>\<open>0o644\<close>, and the environment is empty.
\<close>

definition fresh_session :: widget where
  "fresh_session =
     init_widget (Parsed (JObject [(''show_warning'', JBool False)]))
       Map.empty {} (6 * 64 + 4 * 8 + 4) {} Map.empty"

text \<open>
  The same session on a system where another user has already put a file at the path
  of the askpass helper, with mode \<^verbatim>\<open>0o777\<close>.
\<close>

definition hostile_session :: widget where
  "hostile_session =
     init_widget (Parsed (JObject [(''show_warning'', JBool False)]))
       [askpass_script \<mapsto> \<lparr>content = ''#!/bin/sh'', mode = 7 * 64 + 7 * 8 + 7\<rparr>]
       {askpass_script} (6 * 64 + 4 * 8 + 4) {} Map.empty"

text \<open>
  The user removes \<^verbatim>\<open>foo\<close>, unlocks with a password, and the worker has started
  \<^verbatim>\<open>pacman\<close> as process 100, which is still running.
\<close>

definition removing_foo :: widget where
  "removing_foo =
     ui_run [ClickRemove ''foo'', Respond ''unlock'' ''secret'',
             Popen (ShellJob (sudo_wrapper @ '' pacman -Rns --noconfirm foo'') ''foo'') (Inr 100)]
       fresh_session"

text \<open>The row of an AUR package, as \<^verbatim>\<open>perform_search\<close> builds it.\<close>

definition yay :: package where
  "yay = \<lparr>name = ''yay'', repo = ''AUR'', version = ''12.4.2-1'', installed = False,
           desc = ''Yet another yogurt'', is_aur = True\<rparr>"

text \<open>
  The user installs the AUR package, the clone runs as process 200 and exits with
  code 128, and the user goes back to the search page.
\<close>

definition fetch_failed :: widget where
  "fetch_failed =
     ui_run [ClickInstall yay (Some ''/tmp/linpama_aur_k3x9''),
             Popen (CloneJob ''yay'') (Inr 200),
             CloneEnds ''yay'' 200 128 NoPkgbuild,
             ClickBack]
       fresh_session"

text \<open>The clone succeeds, and the user cancels on the review page.\<close>

definition review_cancelled :: widget where
  "review_cancelled =
     ui_run [ClickInstall yay (Some ''/tmp/linpama_aur_k3x9''),
             Popen (CloneJob ''yay'') (Inr 200),
             CloneEnds ''yay'' 200 0 (PkgbuildText ''pkgname=yay''),
             ClickPkgbuildCancel]
       fresh_session"

section \<open>Properties\<close>

subsection \<open>Splitting and stripping\<close>

lemma split_char_no_sep: "c \<notin> set s \<Longrightarrow> split_char c s = [s]"
  by (induction s) auto

lemma split_char_append: "c \<notin> set h \<Longrightarrow> split_char c (h @ c # rest) = h # split_char c rest"
  by (induction h) auto

lemma is_space_simps [simp]: "is_space space" "is_space newline"
  by (simp_all add: is_space_def)

lemma header_ok_D:
  assumes "header_ok r n v t"
  shows "space \<notin> set r" "space \<notin> set n" "space \<notin> set v"
    "CHR ''/'' \<notin> set r" "CHR ''/'' \<notin> set n" "t = [] \<or> (\<exists>t'. t = space # t')"
proof -
  have sp: "\<And>xs. list_all (\<lambda>c. \<not> is_space c) xs \<Longrightarrow> space \<notin> set xs"
    by (auto simp: list_all_iff)
  from assms have a: "list_all (\<lambda>c. \<not> is_space c \<and> c \<noteq> CHR ''/'') (r @ n)"
    and b: "list_all (\<lambda>c. \<not> is_space c) v"
    and c: "t = [] \<or> hd t = space"
    unfolding header_ok_def by blast+
  from a have a1: "list_all (\<lambda>c. \<not> is_space c) r" "list_all (\<lambda>c. \<not> is_space c) n"
    by (simp_all add: list_all_iff)
  show "space \<notin> set r" "space \<notin> set n" "space \<notin> set v"
    using a1 b by (simp_all add: sp)
  show "CHR ''/'' \<notin> set r" "CHR ''/'' \<notin> set n"
    using a by (auto simp: list_all_iff)
  show "t = [] \<or> (\<exists>t'. t = space # t')"
    using c by (cases t) simp_all
qed

lemma header_parts:
  assumes "header_ok r n v t"
  shows "parse_header (header r n v t) =
           Inr \<lparr> name = n, repo = r, version = v,
                 installed = sublist ''[installed]'' (header r n v t), desc = [], is_aur = False \<rparr>"
proof -
  note d = header_ok_D[OF assms]
  have nsp: "space \<notin> set (r @ ''/'' @ n)" using d(1,2) by simp
  have "\<exists>ws. split_char space (v @ t) = v # ws"
  proof (cases t)
    case Nil
    then show ?thesis using d(3) by (simp add: split_char_no_sep)
  next
    case (Cons x t')
    then have "t = space # t'" using d(6) by simp
    then show ?thesis using split_char_append[OF d(3), of t'] by simp
  qed
  then obtain ws where ws: "split_char space (v @ t) = v # ws" ..
  have "split_char space ((r @ ''/'' @ n) @ space # (v @ t)) = (r @ ''/'' @ n) # v # ws"
    using split_char_append[OF nsp, of "v @ t"] ws by (simp only:)
  then have 1: "split_char space (header r n v t) = (r @ ''/'' @ n) # v # ws"
    by (simp add: header_def)
  have "split_char (CHR ''/'') (r @ CHR ''/'' # n) = [r, n]"
    using split_char_append[OF d(4), of n] split_char_no_sep[OF d(5)] by (simp only:)
  then have 2: "split_char (CHR ''/'') (r @ ''/'' @ n) = [r, n]" by simp
  have 3: "CHR ''/'' \<in> set (r @ ''/'' @ n)" by simp
  show ?thesis
    unfolding parse_header_def 1 by (simp only: 2 3 list.case if_True sum.case prod.case)
qed

lemma no_space_newline: "list_all (\<lambda>c. \<not> is_space c) xs \<Longrightarrow> newline \<notin> set xs"
  by (auto simp: list_all_iff)

lemma header_shape:
  assumes "header_ok r n v t"
  shows "header r n v t \<noteq> []" "\<not> is_space (hd (header r n v t))"
    "\<not> is_space (last (header r n v t))" "newline \<notin> set (header r n v t)"
    "\<not> prefix ''    '' (header r n v t)"
proof -
  from assms have r0: "r \<noteq> []" and v0: "v \<noteq> []"
    and a: "list_all (\<lambda>c. \<not> is_space c \<and> c \<noteq> CHR ''/'') (r @ n)"
    and b: "list_all (\<lambda>c. \<not> is_space c) v"
    and c: "t = [] \<or> (hd t = space \<and> newline \<notin> set t \<and> \<not> is_space (last t))"
    unfolding header_ok_def by blast+
  from a have a1: "list_all (\<lambda>c. \<not> is_space c) r" "list_all (\<lambda>c. \<not> is_space c) n"
    by (simp_all add: list_all_iff)
  from r0 a1(1) obtain x r' where r: "r = x # r'" "\<not> is_space x"
    by (cases r) simp_all
  show "header r n v t \<noteq> []" by (simp add: header_def)
  show "\<not> is_space (hd (header r n v t))" using r by (simp add: header_def)
  show "\<not> is_space (last (header r n v t))"
  proof (cases "t = []")
    case True
    have "\<not> is_space (last v)" using b v0 by (simp add: list_all_iff)
    then show ?thesis using True v0 by (simp add: header_def)
  next
    case False
    then have "\<not> is_space (last t)" using c by blast
    then show ?thesis using False by (simp add: header_def)
  qed
  have "newline \<notin> set t" using c by auto
  then show "newline \<notin> set (header r n v t)"
    using no_space_newline[OF a1(1)] no_space_newline[OF a1(2)] no_space_newline[OF b]
    by (simp add: header_def)
  have "x \<noteq> space" using r(2) by auto
  then show "\<not> prefix ''    '' (header r n v t)" using r(1) by (simp add: header_def)
qed

lemma rstrip_keep: "s \<noteq> [] \<Longrightarrow> \<not> is_space (last s) \<Longrightarrow> rstrip s = s"
  by (cases s rule: rev_cases) (auto simp: rstrip_def)

lemma lstrip_keep: "s \<noteq> [] \<Longrightarrow> \<not> is_space (hd s) \<Longrightarrow> lstrip s = s"
  by (cases s) (auto simp: lstrip_def)

lemma rstrip_append: "\<exists>c\<in>set d. \<not> is_space c \<Longrightarrow> rstrip (h @ d) = h @ rstrip d"
  by (auto simp: rstrip_def dropWhile_append1)

lemma rstrip_spaces: "\<forall>c\<in>set t. is_space c \<Longrightarrow> rstrip (d @ t) = rstrip d"
  using dropWhile_append2[of "rev t" is_space "rev d"] by (simp add: rstrip_def)

lemma rstrip_Cons: "\<not> is_space y \<Longrightarrow> \<exists>z. rstrip (y # b) = y # z"
proof (cases "\<forall>c\<in>set b. is_space c")
  case True
  assume "\<not> is_space y"
  then have "rstrip ([y] @ b) = [y]"
    using True by (simp only: rstrip_spaces) (simp add: rstrip_def)
  then show ?thesis by simp
next
  case False
  then have "rstrip ([y] @ b) = [y] @ rstrip b"
    by (intro rstrip_append) simp
  then show ?thesis by simp
qed

lemma lstrip_rstrip: "lstrip (rstrip s) = rstrip (lstrip s)"
proof (cases "\<forall>c\<in>set s. is_space c")
  case True
  then have a: "dropWhile is_space s = []" and b: "dropWhile is_space (rev s) = []"
    by simp_all
  show ?thesis unfolding lstrip_def rstrip_def a b by simp
next
  case False
  then obtain a y b where s: "s = a @ y # b" "\<not> is_space y" "\<forall>c\<in>set a. is_space c"
    using split_list_first_prop[of s "\<lambda>c. \<not> is_space c"] by auto
  obtain z where z: "rstrip (y # b) = y # z"
    using rstrip_Cons[OF s(2)] by blast
  have l: "lstrip s = y # b"
    using s by (simp add: lstrip_def dropWhile_append2)
  have "rstrip s = a @ rstrip (y # b)"
    unfolding s(1) using s(2) by (intro rstrip_append) auto
  then have "lstrip (rstrip s) = y # z"
    using s z by (simp add: lstrip_def dropWhile_append2)
  then show ?thesis by (simp add: l z)
qed

lemma rstrip_idem: "rstrip (rstrip s) = rstrip s"
  by (simp add: rstrip_def)

lemma strip_rstrip: "strip (rstrip s) = strip s"
  by (simp add: strip_def lstrip_rstrip rstrip_idem)

lemma set_rstrip: "set (rstrip s) \<subseteq> set s"
  by (auto simp: rstrip_def dest: set_dropWhileD)

lemma rstrip_indent:
  assumes "prefix ''    '' d" "\<exists>c\<in>set d. \<not> is_space c"
  shows "prefix ''    '' (rstrip d)"
proof -
  from assms(1) obtain d' where d: "d = ''    '' @ d'" by (auto simp: prefix_def)
  with assms(2) have "\<exists>c\<in>set d'. \<not> is_space c" by auto
  then have "rstrip d = ''    '' @ rstrip d'" unfolding d by (rule rstrip_append)
  then show ?thesis by simp
qed

lemma strip_two_lines:
  assumes "h \<noteq> []" "\<not> is_space (hd h)" "\<exists>c\<in>set d. \<not> is_space c"
  shows "strip (h @ [newline] @ d @ [newline]) = h @ [newline] @ rstrip d"
proof -
  have "lstrip (h @ [newline] @ d @ [newline]) = h @ [newline] @ d @ [newline]"
    using assms(1,2) by (intro lstrip_keep) auto
  moreover have "rstrip ((h @ [newline] @ d) @ [newline]) = rstrip (h @ [newline] @ d)"
    by (intro rstrip_spaces) simp
  moreover have "rstrip ((h @ [newline]) @ d) = (h @ [newline]) @ rstrip d"
    using assms(3) by (rule rstrip_append)
  ultimately show ?thesis by (simp add: strip_def)
qed

lemma local_lookup_described:
  assumes "header_ok r n v t" "prefix ''    '' d" "\<exists>c\<in>set d. \<not> is_space c" "newline \<notin> set d"
  shows "local_lookup (Completed 0 (header r n v t @ [newline] @ d @ [newline])) =
           [\<lparr> name = n, repo = r, version = v,
              installed = sublist ''[installed]'' (header r n v t),
              desc = strip d, is_aur = False \<rparr>]"
proof -
  let ?h = "header r n v t"
  note hs = header_shape[OF assms(1)]
  have st: "strip (?h @ [newline] @ d @ [newline]) = ?h @ [newline] @ rstrip d"
    using hs(1,2) assms(3) by (rule strip_two_lines)
  have "newline \<notin> set (rstrip d)" using assms(4) set_rstrip by blast
  then have ls: "split_char newline (?h @ [newline] @ rstrip d) = [?h, rstrip d]"
    using split_char_append[OF hs(4), of "rstrip d"] by (simp add: split_char_no_sep)
  have ind: "prefix ''    '' (rstrip d)" using assms(2,3) by (rule rstrip_indent)
  show ?thesis
    unfolding local_lookup_def
    using hs(5) ind
    by (simp add: st ls parse_output_def header_parts[OF assms(1)] strip_rstrip del: append.simps)
qed

lemma strip_two_headers:
  assumes "h1 \<noteq> []" "\<not> is_space (hd h1)" "h2 \<noteq> []" "\<not> is_space (last h2)"
  shows "strip (h1 @ [newline] @ h2 @ [newline]) = h1 @ [newline] @ h2"
proof -
  have "lstrip (h1 @ [newline] @ h2 @ [newline]) = h1 @ [newline] @ h2 @ [newline]"
    using assms(1,2) by (intro lstrip_keep) auto
  moreover have "rstrip ((h1 @ [newline] @ h2) @ [newline]) = rstrip (h1 @ [newline] @ h2)"
    by (intro rstrip_spaces) simp
  moreover have "rstrip (h1 @ [newline] @ h2) = h1 @ [newline] @ h2"
    using assms(3,4) by (intro rstrip_keep) auto
  ultimately show ?thesis by (simp add: strip_def)
qed

lemma local_lookup_two_headers:
  assumes "header_ok r1 n1 v1 t1" "header_ok r2 n2 v2 t2"
  shows "local_lookup (Completed 0 (header r1 n1 v1 t1 @ [newline] @ header r2 n2 v2 t2 @ [newline])) =
           [\<lparr> name = n1, repo = r1, version = v1,
              installed = sublist ''[installed]'' (header r1 n1 v1 t1),
              desc = [], is_aur = False \<rparr>,
            \<lparr> name = n2, repo = r2, version = v2,
              installed = sublist ''[installed]'' (header r2 n2 v2 t2),
              desc = [], is_aur = False \<rparr>]"
proof -
  let ?h1 = "header r1 n1 v1 t1" and ?h2 = "header r2 n2 v2 t2"
  note a = header_shape[OF assms(1)] and b = header_shape[OF assms(2)]
  have st: "strip (?h1 @ [newline] @ ?h2 @ [newline]) = ?h1 @ [newline] @ ?h2"
    using a(1,2) b(1,3) by (rule strip_two_headers)
  have ls: "split_char newline (?h1 @ [newline] @ ?h2) = [?h1, ?h2]"
    using split_char_append[OF a(4), of ?h2] by (simp add: split_char_no_sep[OF b(4)])
  show ?thesis
    unfolding local_lookup_def
    using a(5) b(5)
    by (simp add: st ls parse_output_def header_parts[OF assms(1)] header_parts[OF assms(2)]
          del: append.simps)
qed


subsection \<open>The local index parser\<close>

lemma strip_blank_tail:
  assumes "h \<noteq> []" "\<not> is_space (hd h)" "\<not> is_space (last h)" "\<forall>c\<in>set d. is_space c"
  shows "strip (h @ [newline] @ d @ [newline]) = h"
proof -
  have "lstrip (h @ [newline] @ d @ [newline]) = h @ [newline] @ d @ [newline]"
    using assms(1,2) by (intro lstrip_keep) auto
  moreover have "rstrip (h @ ([newline] @ d @ [newline])) = rstrip h"
    using assms(4) by (intro rstrip_spaces) simp
  moreover have "rstrip h = h" using assms(1,3) by (rule rstrip_keep)
  ultimately show ?thesis by (simp add: strip_def)
qed

lemma strip_blank:
  assumes "\<forall>c\<in>set d. is_space c"
  shows "strip d = []"
proof -
  from assms have a: "dropWhile is_space d = []" by simp
  show ?thesis unfolding strip_def lstrip_def rstrip_def a by simp
qed

lemma local_lookup_blank_description:
  assumes "header_ok r n v t" "\<forall>c\<in>set d. is_space c"
  shows "local_lookup (Completed 0 (header r n v t @ [newline] @ d @ [newline])) =
           [\<lparr> name = n, repo = r, version = v,
              installed = sublist ''[installed]'' (header r n v t),
              desc = strip d, is_aur = False \<rparr>]"
proof -
  let ?h = "header r n v t"
  note hs = header_shape[OF assms(1)]
  have st: "strip (?h @ [newline] @ d @ [newline]) = ?h"
    using hs(1,2,3) assms(2) by (rule strip_blank_tail)
  have ls: "split_char newline ?h = [?h]" using hs(4) by (rule split_char_no_sep)
  show ?thesis
    unfolding local_lookup_def
    using hs(5)
    by (simp add: st ls parse_output_def header_parts[OF assms(1)] strip_blank[OF assms(2)]
          del: append.simps)
qed

text \<open>
  Claim C6. Given the output of one header line \<^verbatim>\<open>repo/name version\<close> (with or without
  a rest such as \<^verbatim>\<open> [installed]\<close>) followed by one indented line, the local lookup
  returns exactly one record, with the name, repository and version of the header and
  the stripped indented line as its description. Given two header lines in a row it
  returns two records, each with an empty description.
\<close>

theorem local_parser_description_capture:
  "(header_ok r n v t \<and> prefix ''    '' d \<and> newline \<notin> set d \<longrightarrow>
      local_lookup (Completed 0 (header r n v t @ [newline] @ d @ [newline])) =
        [\<lparr> name = n, repo = r, version = v,
           installed = sublist ''[installed]'' (header r n v t),
           desc = strip d, is_aur = False \<rparr>]) \<and>
   (header_ok r1 n1 v1 t1 \<and> header_ok r2 n2 v2 t2 \<longrightarrow>
      local_lookup (Completed 0
          (header r1 n1 v1 t1 @ [newline] @ header r2 n2 v2 t2 @ [newline])) =
        [\<lparr> name = n1, repo = r1, version = v1,
           installed = sublist ''[installed]'' (header r1 n1 v1 t1),
           desc = [], is_aur = False \<rparr>,
         \<lparr> name = n2, repo = r2, version = v2,
           installed = sublist ''[installed]'' (header r2 n2 v2 t2),
           desc = [], is_aur = False \<rparr>])"
proof (intro conjI impI)
  assume a: "header_ok r n v t \<and> prefix ''    '' d \<and> newline \<notin> set d"
  show "local_lookup (Completed 0 (header r n v t @ [newline] @ d @ [newline])) =
        [\<lparr> name = n, repo = r, version = v,
           installed = sublist ''[installed]'' (header r n v t),
           desc = strip d, is_aur = False \<rparr>]"
  proof (cases "\<forall>c\<in>set d. is_space c")
    case True
    with a show ?thesis by (intro local_lookup_blank_description) simp_all
  next
    case False
    with a show ?thesis by (intro local_lookup_described) simp_all
  qed
next
  assume "header_ok r1 n1 v1 t1 \<and> header_ok r2 n2 v2 t2"
  then show "local_lookup (Completed 0
          (header r1 n1 v1 t1 @ [newline] @ header r2 n2 v2 t2 @ [newline])) =
        [\<lparr> name = n1, repo = r1, version = v1,
           installed = sublist ''[installed]'' (header r1 n1 v1 t1),
           desc = [], is_aur = False \<rparr>,
         \<lparr> name = n2, repo = r2, version = v2,
           installed = sublist ''[installed]'' (header r2 n2 v2 t2),
           desc = [], is_aur = False \<rparr>]"
    by (intro local_lookup_two_headers) simp_all
qed

theorem local_parser_description_capture_witness:
  "local_lookup (Completed 0 (''core/vim 9.1-1 [installed]'' @ [newline] @ ''    Vi Improved, a text editor '' @ [newline])) =
     [\<lparr> name = ''vim'', repo = ''core'', version = ''9.1-1'', installed = True,
        desc = ''Vi Improved, a text editor'', is_aur = False \<rparr>] \<and>
   local_lookup (Completed 0 (''core/nano 8.2-1'' @ [newline] @ ''extra/vim 9.1-1 [installed]'' @ [newline])) =
     [\<lparr> name = ''nano'', repo = ''core'', version = ''8.2-1'', installed = False,
        desc = [], is_aur = False \<rparr>,
      \<lparr> name = ''vim'', repo = ''extra'', version = ''9.1-1'', installed = True,
        desc = [], is_aur = False \<rparr>]"
proof -
  have h1: "header_ok ''core'' ''vim'' ''9.1-1'' '' [installed]''"
    and h2: "header_ok ''core'' ''nano'' ''8.2-1'' []"
    and h3: "header_ok ''extra'' ''vim'' ''9.1-1'' '' [installed]''"
    by (simp_all add: header_ok_def is_space_def)
  have i1: "sublist ''[installed]'' ''core/vim 9.1-1 [installed]''"
    and i2: "\<not> sublist ''[installed]'' ''core/nano 8.2-1''"
    and i3: "sublist ''[installed]'' ''extra/vim 9.1-1 [installed]''"
    by (simp_all add: sublist_code)
  have s: "strip ''    Vi Improved, a text editor '' = ''Vi Improved, a text editor''"
    by (simp add: strip_def lstrip_def rstrip_def is_space_def)
  from local_parser_description_capture
    [of "''core''" "''vim''" "''9.1-1''" "'' [installed]''" "''    Vi Improved, a text editor ''"
        "''core''" "''nano''" "''8.2-1''" "[]" "''extra''" "''vim''" "''9.1-1''" "'' [installed]''"]
  show ?thesis
    using h1 h2 h3 i1 i2 i3 s by (simp add: header_def)
qed
lemma parse_lines_append:
  "parse_lines (pre @ rest) results cur =
     (case parse_lines pre results cur of
        (r, c, None) \<Rightarrow> parse_lines rest r c
      | (r, c, Some e) \<Rightarrow> (r, c, Some e))"
  by (induction pre results cur rule: parse_lines.induct)
     (auto split: option.splits sum.splits prod.splits simp: Let_def)

lemma parse_lines_well_formed:
  "\<forall>l \<in> set ls. well_formed l \<Longrightarrow> snd (snd (parse_lines ls results cur)) = None"
  by (induction ls results cur rule: parse_lines.induct)
     (auto split: option.splits sum.splits simp: Let_def well_formed_def)

lemma parse_lines_malformed:
  "malformed bad \<Longrightarrow> \<exists>e. parse_lines (bad # post) results cur =
      ((case cur of Some p \<Rightarrow> results @ [p] | None \<Rightarrow> results), cur, Some e)"
  by (auto simp: malformed_def Let_def split: sum.splits option.splits)

lemma parse_output_cut:
  assumes "\<forall>l \<in> set pre. well_formed l" "malformed bad"
  shows "parse_output (pre @ bad # post) = parse_output pre"
proof -
  obtain r c where pc: "parse_lines pre [] None = (r, c, None)"
    using parse_lines_well_formed[OF assms(1), of "[]" None]
    by (cases "parse_lines pre [] None") auto
  obtain e where "parse_lines (bad # post) r c = ((case c of Some p \<Rightarrow> r @ [p] | None \<Rightarrow> r), c, Some e)"
    using parse_lines_malformed[OF assms(2)] by blast
  then show ?thesis
    by (simp add: parse_output_def parse_lines_append pc split: option.splits)
qed

text \<open>
  Claim C5, as the code has it. A header line on which the loop raises ends the local
  parse: the lookup returns what the lines before that line give, exactly as if the
  output had stopped there, and nothing from the lines after it. The exception stays
  inside \<^verbatim>\<open>perform_search\<close>, so the lookup still returns a list.
\<close>

theorem malformed_line_ends_local_parse:
  assumes "stdout \<noteq> []"
    and "split_char newline (strip stdout) = pre @ bad # post"
    and "\<forall>l \<in> set pre. well_formed l"
    and "malformed bad"
  shows "local_lookup (Completed 0 stdout) = parse_output pre"
  using assms by (simp add: local_lookup_def parse_output_cut)

lemma strip_out_bad:
  "split_char newline (strip (''core/a 1.0'' @ [newline] @ ''    da'' @ [newline] @ ''badline'' @ [newline]
       @ ''core/b 2.0'' @ [newline] @ ''    db'' @ [newline])) = [''core/a 1.0'', ''    da''] @ ''badline'' # [''core/b 2.0'', ''    db'']"
  by (simp add: strip_def lstrip_def rstrip_def is_space_def)

lemma malformed_badline: "malformed ''badline''"
  by (simp add: malformed_def parse_header_def)

lemma pre_ok: "\<forall>l \<in> set [''core/a 1.0'', ''    da'']. well_formed l"
  by (simp add: well_formed_def parse_header_def)

lemma po: "parse_output [''core/a 1.0'', ''    da''] = [\<lparr> name = ''a'', repo = ''core'', version = ''1.0'', installed = False,
        desc = ''da'', is_aur = False \<rparr>]"
  by (simp add: parse_output_def parse_header_def strip_def lstrip_def rstrip_def is_space_def sublist_code)

theorem malformed_line_ends_local_parse_witness:
  "local_lookup (Completed 0
      (''core/a 1.0'' @ [newline] @ ''    da'' @ [newline] @ ''badline'' @ [newline]
       @ ''core/b 2.0'' @ [newline] @ ''    db'' @ [newline])) =
     [\<lparr> name = ''a'', repo = ''core'', version = ''1.0'', installed = False,
        desc = ''da'', is_aur = False \<rparr>]"
proof -
  have ne: "(''core/a 1.0'' @ [newline] @ ''    da'' @ [newline] @ ''badline'' @ [newline]
       @ ''core/b 2.0'' @ [newline] @ ''    db'' @ [newline]) \<noteq> []" by simp
  show ?thesis
    using malformed_line_ends_local_parse[OF ne strip_out_bad pre_ok malformed_badline]
    by (simp only: po)
qed

text \<open>
  Claim C5 as stated fails: the line \<^verbatim>\<open>badline\<close> has no version field, and the record
  of the well-formed lines after it (\<^verbatim>\<open>core/b\<close>) is not returned, although the same
  output without that line gives both records.
\<close>

theorem malformed_line_loses_later_records:
  "malformed ''badline'' \<and>
   local_lookup (Completed 0
      (''core/a 1.0'' @ [newline] @ ''    da'' @ [newline] @ ''badline'' @ [newline]
       @ ''core/b 2.0'' @ [newline] @ ''    db'' @ [newline])) =
     [\<lparr> name = ''a'', repo = ''core'', version = ''1.0'', installed = False,
        desc = ''da'', is_aur = False \<rparr>] \<and>
   local_lookup (Completed 0
      (''core/a 1.0'' @ [newline] @ ''    da'' @ [newline]
       @ ''core/b 2.0'' @ [newline] @ ''    db'' @ [newline])) =
     [\<lparr> name = ''a'', repo = ''core'', version = ''1.0'', installed = False,
        desc = ''da'', is_aur = False \<rparr>,
      \<lparr> name = ''b'', repo = ''core'', version = ''2.0'', installed = False,
        desc = ''db'', is_aur = False \<rparr>]"
  by (simp add: malformed_def local_lookup_def parse_output_def parse_header_def
        strip_def lstrip_def rstrip_def is_space_def sublist_code)

subsection \<open>The first-run warning\<close>

text \<open>
  Claim C10, as the code has it. When the configuration file is absent, unreadable, not
  valid JSON, not a JSON object or has no \<^verbatim>\<open>show_warning\<close> key,
  \<^verbatim>\<open>should_show_warning\<close> returns \<^verbatim>\<open>True\<close> and the warning is shown. Otherwise it
  returns the stored value unchanged. The warning is suppressed exactly when the file
  parses to an object whose \<^verbatim>\<open>show_warning\<close> value is false in Python's sense
  (\<^verbatim>\<open>false\<close>, \<^verbatim>\<open>null\<close>, zero, an empty string, list or object).
\<close>

theorem warning_default_and_suppression:
  "(\<not> has_show_warning cfg \<longrightarrow>
      should_show_warning cfg = JBool True \<and> initial_view cfg = warning_view) \<and>
   (initial_view cfg = search_view \<longleftrightarrow>
      (\<exists>kvs v. cfg = Parsed (JObject kvs) \<and> map_of kvs ''show_warning'' = Some v \<and> \<not> truthy v)) \<and>
   (\<forall>kvs v. cfg = Parsed (JObject kvs) \<and> map_of kvs ''show_warning'' = Some v \<longrightarrow>
      should_show_warning cfg = v)"
proof -
  have "(\<not> has_show_warning cfg \<longrightarrow>
      should_show_warning cfg = JBool True \<and> initial_view cfg = warning_view) \<and>
   (initial_view cfg = search_view \<longleftrightarrow>
      (\<exists>kvs v. cfg = Parsed (JObject kvs) \<and> map_of kvs ''show_warning'' = Some v \<and> \<not> truthy v))"
  proof (cases cfg)
    case (Parsed j)
    then show ?thesis
      by (cases j) (auto simp: initial_view_def split: option.splits)
  qed (simp_all add: initial_view_def)
  moreover have "\<forall>kvs v. cfg = Parsed (JObject kvs) \<and> map_of kvs ''show_warning'' = Some v \<longrightarrow>
      should_show_warning cfg = v"
    by auto
  ultimately show ?thesis by blast
qed

theorem warning_default_and_suppression_witness:
  "should_show_warning InvalidJson = JBool True \<and>
   initial_view (Parsed (JObject [(''theme'', JString ''dark'')])) = warning_view \<and>
   initial_view (Parsed (JObject [(''show_warning'', JBool False)])) = search_view \<and>
   should_show_warning (Parsed (JObject [(''show_warning'', JInt 0)])) = JInt 0"
  using warning_default_and_suppression[of InvalidJson]
    warning_default_and_suppression[of "Parsed (JObject [(''theme'', JString ''dark'')])"]
    warning_default_and_suppression[of "Parsed (JObject [(''show_warning'', JBool False)])"]
    warning_default_and_suppression[of "Parsed (JObject [(''show_warning'', JInt 0)])"]
  by simp

text \<open>
  Claim C10 as stated fails: with \<^verbatim>\<open>{"show_warning": null}\<close> the warning is suppressed,
  and the field is not \<^verbatim>\<open>false\<close>.
\<close>

theorem warning_suppressed_by_null:
  "initial_view (Parsed (JObject [(''show_warning'', JNull)])) = search_view \<and>
   should_show_warning (Parsed (JObject [(''show_warning'', JNull)])) \<noteq> JBool False"
  by (simp add: initial_view_def)

subsection \<open>Search requests\<close>





















subsection \<open>The helper scripts\<close>

lemma write_file_frame:
  "write_file p text s = Inr s' \<Longrightarrow> \<exists>f. s' = s\<lparr>files := f\<rparr>"
  by (auto simp: write_file_def split: option.splits if_splits)

lemma chmod_frame: "chmod p m s = Inr s' \<Longrightarrow> \<exists>f. s' = s\<lparr>files := f\<rparr>"
  by (auto simp: chmod_def split: option.splits if_splits)

lemma write_file_at:
  "write_file p text s = Inr s' \<Longrightarrow>
     (\<exists>f. files s' p = Some f \<and> content f = text) \<and> (\<forall>q. q \<noteq> p \<longrightarrow> files s' q = files s q)
     \<and> foreign s' = foreign s"
  by (cases "files s p") (auto simp: write_file_def split: if_splits)

lemma chmod_at:
  "chmod p m s = Inr s' \<Longrightarrow> files s p = Some f \<Longrightarrow>
     files s' p = Some (f\<lparr>mode := m\<rparr>) \<and> (\<forall>q. q \<noteq> p \<longrightarrow> files s' q = files s q)
     \<and> foreign s' = foreign s"
  by (auto simp: chmod_def split: if_splits)

lemma setup_sudo_env_frame: "\<exists>f. fst (setup_sudo_env s) = s\<lparr>files := f\<rparr>"
proof -
  show ?thesis
  proof (cases "write_file askpass_script askpass_text s")
    case (Inl e)
    then have "fst (setup_sudo_env s) = s" by (simp add: setup_sudo_env_def)
    then have "fst (setup_sudo_env s) = s\<lparr>files := files s\<rparr>" by simp
    then show ?thesis by blast
  next
    case (Inr s1)
    then obtain f1 where s1: "s1 = s\<lparr>files := f1\<rparr>" using write_file_frame by blast
    show ?thesis
    proof (cases "chmod askpass_script mode_0o700 s1")
      case (Inl e)
      then show ?thesis using Inr s1 by (auto simp: setup_sudo_env_def)
    next
      case i2: (Inr s2)
      then obtain f2 where s2: "s2 = s1\<lparr>files := f2\<rparr>" using chmod_frame by blast
      show ?thesis
      proof (cases "write_file sudo_wrapper wrapper_text s2")
        case (Inl e)
        then show ?thesis using Inr i2 s1 s2 by (auto simp: setup_sudo_env_def)
      next
        case i3: (Inr s3)
        then obtain f3 where s3: "s3 = s2\<lparr>files := f3\<rparr>" using write_file_frame by blast
        show ?thesis
        proof (cases "chmod sudo_wrapper mode_0o700 s3")
          case (Inl e)
          then show ?thesis using Inr i2 i3 s1 s2 s3 by (auto simp: setup_sudo_env_def)
        next
          case i4: (Inr s4)
          then obtain f4 where s4: "s4 = s3\<lparr>files := f4\<rparr>" using chmod_frame by blast
          show ?thesis using Inr i2 i3 i4 s1 s2 s3 s4 by (auto simp: setup_sudo_env_def)
        qed
      qed
    qed
  qed
qed

lemma script_paths_differ: "askpass_script \<noteq> sudo_wrapper"
  by (simp add: askpass_script_def sudo_wrapper_def APP_NAME_def)

lemma setup_sudo_env_ok:
  assumes "snd (setup_sudo_env s) = None"
  shows "files (fst (setup_sudo_env s)) askpass_script =
           Some \<lparr>content = askpass_text, mode = mode_0o700\<rparr> \<and>
         files (fst (setup_sudo_env s)) sudo_wrapper =
           Some \<lparr>content = wrapper_text, mode = mode_0o700\<rparr>"
proof -
  from assms obtain s1 s2 s3 s4 where
    w1: "write_file askpass_script askpass_text s = Inr s1" and
    c1: "chmod askpass_script mode_0o700 s1 = Inr s2" and
    w2: "write_file sudo_wrapper wrapper_text s2 = Inr s3" and
    c2: "chmod sudo_wrapper mode_0o700 s3 = Inr s4" and
    r: "setup_sudo_env s = (s4, None)"
    by (auto simp: setup_sudo_env_def split: sum.splits)
  from write_file_at[OF w1] obtain f1 where
    a1: "files s1 askpass_script = Some f1" and t1: "content f1 = askpass_text" by blast
  from chmod_at[OF c1 a1] t1 have
    a2: "files s2 askpass_script = Some \<lparr>content = askpass_text, mode = mode_0o700\<rparr>"
    by (cases f1) simp
  from write_file_at[OF w2] obtain f3 where
    b3: "files s3 sudo_wrapper = Some f3" and t3: "content f3 = wrapper_text"
    and o3: "\<forall>q. q \<noteq> sudo_wrapper \<longrightarrow> files s3 q = files s2 q" by blast
  from chmod_at[OF c2 b3] t3 have
    b4: "files s4 sudo_wrapper = Some \<lparr>content = wrapper_text, mode = mode_0o700\<rparr>"
    and o4: "\<forall>q. q \<noteq> sudo_wrapper \<longrightarrow> files s4 q = files s3 q"
    by (cases f3; simp)+
  have "files s4 askpass_script = files s2 askpass_script"
    using o3 o4 script_paths_differ by simp
  then show ?thesis using a2 b4 r by simp
qed

lemma askpass_text_constant:
  "askpass_text = ''#!/bin/sh'' @ [newline] @ ''echo '' @ [dquote] @ ''$LINPAMA_SUDO_PW'' @ [dquote] @ [newline]"
  by code_simp

subsection \<open>Starting a command\<close>

lemma run_transaction_cases:
  obtains (raised) f where "run_transaction n s = s\<lparr>files := f\<rparr>"
  | (no_attribute) f where
      "run_transaction n s =
         s\<lparr>files := f, visible_child := progress_view, output_buffer := [],
           btn_back_sensitive := False, process_in_progress := True,
           current_package_name := n, btn_cancel_visible := True\<rparr>"
  | (started) f command status where
      "run_transaction n s =
         s\<lparr>files := f, visible_child := progress_view, output_buffer := [],
           btn_back_sensitive := False, process_in_progress := True,
           current_package_name := n, btn_cancel_visible := True,
           lbl_progress_status := status,
           workers := workers s @ [Started (ShellJob command n)]\<rparr>"
proof -
  obtain f where f: "fst (setup_sudo_env s) = s\<lparr>files := f\<rparr>"
    using setup_sudo_env_frame by blast
  obtain s1 e where se: "setup_sudo_env s = (s1, e)" by (cases "setup_sudo_env s")
  with f have s1: "s1 = s\<lparr>files := f\<rparr>" by simp
  show ?thesis
  proof (cases e)
    case (Some err)
    then have "run_transaction n s = s\<lparr>files := f\<rparr>"
      by (simp add: run_transaction_def se s1)
    then show ?thesis by (rule raised)
  next
    case None
    show ?thesis
    proof (cases "action_type s")
      case a: None
      have "run_transaction n s =
         s\<lparr>files := f, visible_child := progress_view, output_buffer := [],
           btn_back_sensitive := False, process_in_progress := True,
           current_package_name := n, btn_cancel_visible := True\<rparr>"
        by (simp add: run_transaction_def se s1 None a Let_def)
      then show ?thesis by (rule no_attribute)
    next
      case a: (Some act)
      show ?thesis
      proof (cases "act = ''remove''")
        case True
        have "run_transaction n s =
         s\<lparr>files := f, visible_child := progress_view, output_buffer := [],
           btn_back_sensitive := False, process_in_progress := True,
           current_package_name := n, btn_cancel_visible := True,
           lbl_progress_status := ''Removing package...'',
           workers := workers s @
             [Started (ShellJob (sudo_wrapper @ '' pacman -Rns --noconfirm '' @ n) n)]\<rparr>"
          using True by (simp add: run_transaction_def se s1 None a Let_def)
        then show ?thesis by (rule started)
      next
        case False
        have "run_transaction n s =
         s\<lparr>files := f, visible_child := progress_view, output_buffer := [],
           btn_back_sensitive := False, process_in_progress := True,
           current_package_name := n, btn_cancel_visible := True,
           lbl_progress_status := ''Downloading and installing...'',
           workers := workers s @
             [Started (ShellJob (sudo_wrapper @ '' pacman -S --noconfirm --needed '' @ n) n)]\<rparr>"
          using False by (simp add: run_transaction_def se s1 None a Let_def)
        then show ?thesis by (rule started)
      qed
    qed
  qed
qed

lemma run_aur_build_cases:
  obtains (raised) f where "run_aur_build s = s\<lparr>files := f\<rparr>"
  | (no_name) f where
      "run_aur_build s = s\<lparr>files := f, visible_child := progress_view, output_buffer := []\<rparr>"
  | (no_directory) f n where
      "run_aur_build s =
         s\<lparr>files := f, visible_child := progress_view, output_buffer := [],
           lbl_progress_status := ''Compiling package...'',
           btn_cancel_visible := True, current_package_name := n\<rparr>"
  | (started) f command n where
      "run_aur_build s =
         s\<lparr>files := f, visible_child := progress_view, output_buffer := [],
           lbl_progress_status := ''Compiling package...'',
           btn_cancel_visible := True, current_package_name := n,
           workers := workers s @ [Started (ShellJob command n)]\<rparr>"
proof -
  obtain f where f: "fst (setup_sudo_env s) = s\<lparr>files := f\<rparr>"
    using setup_sudo_env_frame by blast
  obtain s1 e where se: "setup_sudo_env s = (s1, e)" by (cases "setup_sudo_env s")
  with f have s1: "s1 = s\<lparr>files := f\<rparr>" by simp
  show ?thesis
  proof (cases e)
    case (Some err)
    then have "run_aur_build s = s\<lparr>files := f\<rparr>"
      by (simp add: run_aur_build_def se s1)
    then show ?thesis by (rule raised)
  next
    case None
    show ?thesis
    proof (cases "aur_pkg_name s")
      case a: None
      have "run_aur_build s = s\<lparr>files := f, visible_child := progress_view, output_buffer := []\<rparr>"
        by (simp add: run_aur_build_def se s1 None a Let_def)
      then show ?thesis by (rule no_name)
    next
      case a: (Some n)
      show ?thesis
      proof (cases "aur_temp_dir s")
        case b: None
        have "run_aur_build s =
         s\<lparr>files := f, visible_child := progress_view, output_buffer := [],
           lbl_progress_status := ''Compiling package...'',
           btn_cancel_visible := True, current_package_name := n\<rparr>"
          by (simp add: run_aur_build_def se s1 None a b Let_def)
        then show ?thesis by (rule no_directory)
      next
        case b: (Some d)
        have "run_aur_build s =
         s\<lparr>files := f, visible_child := progress_view, output_buffer := [],
           lbl_progress_status := ''Compiling package...'',
           btn_cancel_visible := True, current_package_name := n,
           workers := workers s @
             [Started (ShellJob (''cd '' @ d @ '' && export SUDO_ASKPASS='' @ [squote]
                @ askpass_script @ [squote] @ '' && makepkg -si --noconfirm'') n)]\<rparr>"
          by (simp add: run_aur_build_def se s1 None a b Let_def)
        then show ?thesis by (rule started)
      qed
    qed
  qed
qed

subsection \<open>One command at a time\<close>

lemma single_worker: "length ws \<le> 1 \<Longrightarrow> w \<in> set ws \<Longrightarrow> ws = [w]"
  by (cases ws) auto

lemma foldl_append_log:
  "foldl (\<lambda>s' line. append_log line s') s ls = s\<lparr>output_buffer := output_buffer s @ concat ls\<rparr>"
  by (induction ls arbitrary: s) (simp_all add: append_log_def)

lemma on_process_finished_view:
  "workers (on_process_finished b n s) = workers s"
  "dialogs (on_process_finished b n s) = dialogs s"
  "visible_child (on_process_finished b n s) = (if b then info_view else visible_child s)"
  "btn_back_sensitive (on_process_finished b n s) = (if b then btn_back_sensitive s else True)"
  "children (on_process_finished b n s) = children s"
  "signals (on_process_finished b n s) = signals s"
  "user_password (on_process_finished b n s) = user_password s"
  by (simp_all add: on_process_finished_def append_log_def Let_def split: option.splits)

lemma exclusive_idle:
  assumes "workers s' = []" "dialogs s' = []"
    "visible_child s' \<noteq> pkgbuild_view \<or> \<not> btn_back_sensitive s'"
  shows "exclusive s'"
  using assms by (simp add: exclusive_def)

lemma exclusive_working:
  assumes "workers s' = [w]" "dialogs s' = []" "visible_child s' = progress_view"
    "\<not> btn_back_sensitive s'"
  shows "exclusive s'"
  using assms by (simp add: exclusive_def)

lemma exclusive_D:
  assumes "exclusive s"
  shows "length (workers s) \<le> 1"
    "workers s \<noteq> [] \<Longrightarrow> visible_child s = progress_view \<and> \<not> btn_back_sensitive s \<and> dialogs s = []"
    "visible_child s = pkgbuild_view \<Longrightarrow> \<not> btn_back_sensitive s"
    "dialogs s \<noteq> [] \<Longrightarrow> length (dialogs s) = 1 \<and> (visible_child s = search_view \<or> visible_child s = pkgbuild_view)"
    "RunAurBuild \<in> set (dialogs s) \<Longrightarrow> visible_child s = pkgbuild_view"
  using assms unfolding exclusive_def by blast+

lemma exclusive_run_transaction:
  assumes "workers s = []" "dialogs s = []"
    "visible_child s \<noteq> pkgbuild_view \<or> \<not> btn_back_sensitive s"
  shows "exclusive (run_transaction n s)"
proof (cases rule: run_transaction_cases[of n s])
  case (raised f)
  show ?thesis unfolding raised using assms by (intro exclusive_idle) simp_all
next
  case (no_attribute f)
  show ?thesis unfolding no_attribute using assms by (intro exclusive_idle) simp_all
next
  case (started f command status)
  show ?thesis unfolding started using assms
    by (intro exclusive_working[where w = "Started (ShellJob command n)"]) simp_all
qed

lemma exclusive_run_aur_build:
  assumes "workers s = []" "dialogs s = []" "\<not> btn_back_sensitive s"
  shows "exclusive (run_aur_build s)"
proof (cases rule: run_aur_build_cases[of s])
  case (raised f)
  show ?thesis unfolding raised using assms by (intro exclusive_idle) simp_all
next
  case (no_name f)
  show ?thesis unfolding no_name using assms by (intro exclusive_idle) simp_all
next
  case (no_directory f n)
  show ?thesis unfolding no_directory using assms by (intro exclusive_idle) simp_all
next
  case (started f command n)
  show ?thesis unfolding started using assms
    by (intro exclusive_working[where w = "Started (ShellJob command n)"]) simp_all
qed

lemma exclusive_step:
  assumes ex: "exclusive s" and dl: "deliverable e s"
  shows "exclusive (handle e s)"
proof -
  note d = exclusive_D[OF ex]
  have idle_view: "visible_child s \<noteq> progress_view \<Longrightarrow> workers s = []"
    using d(2) by blast
  have pk: "visible_child s \<noteq> pkgbuild_view \<or> \<not> btn_back_sensitive s"
    using d(3) by blast
  show ?thesis
  proof (cases e)
    case ClickContinue
    with dl have "visible_child s = warning_view" "dialogs s = []" by simp_all
    then show ?thesis unfolding ClickContinue using idle_view
      by (intro exclusive_idle) simp_all
  next
    case (ClickInstall pkg mkdtemp)
    with dl have v: "visible_child s = search_view" and dg: "dialogs s = []" by simp_all
    then have w: "workers s = []" using idle_view by simp
    let ?s1 = "s\<lparr>action_type := Some ''install'', target_pkg := Some pkg\<rparr>"
    show ?thesis
    proof (cases "is_aur pkg")
      case True
      show ?thesis
      proof (cases mkdtemp)
        case None
        then show ?thesis using True v dg w
          by (simp add: ClickInstall initiate_install_def start_aur_review_process_def
                exclusive_def)
      next
        case (Some dir)
        then show ?thesis using True v dg w
          by (simp add: ClickInstall initiate_install_def start_aur_review_process_def
                exclusive_def)
      qed
    next
      case False
      show ?thesis
      proof (cases "no_password ?s1")
        case True
        then show ?thesis using False v dg w
          by (simp add: ClickInstall initiate_install_def prompt_for_password_def exclusive_def)
      next
        case np: False
        have "exclusive (run_transaction (name pkg) ?s1)"
          using v dg w by (intro exclusive_run_transaction) simp_all
        then show ?thesis using False np by (simp add: ClickInstall initiate_install_def)
      qed
    qed
  next
    case (ClickRemove n)
    with dl have v: "visible_child s = search_view" and dg: "dialogs s = []" by simp_all
    then have w: "workers s = []" using idle_view by simp
    let ?s1 = "s\<lparr>action_type := Some ''remove''\<rparr>"
    show ?thesis
    proof (cases "no_password ?s1")
      case True
      then show ?thesis using v dg w
        by (simp add: ClickRemove initiate_remove_def prompt_for_password_def exclusive_def)
    next
      case np: False
      have "exclusive (run_transaction n ?s1)"
        using v dg w by (intro exclusive_run_transaction) simp_all
      then show ?thesis using np by (simp add: ClickRemove initiate_remove_def)
    qed
  next
    case (Respond response pwd)
    with dl have ne: "dialogs s \<noteq> []" by simp
    then obtain cb where dg: "dialogs s = [cb]"
      using d(4) by (cases "dialogs s") auto
    from ne d(4) have v: "visible_child s = search_view \<or> visible_child s = pkgbuild_view"
      by blast
    then have w: "workers s = []" using idle_view by auto
    let ?s1 = "s\<lparr>dialogs := []\<rparr>"
    show ?thesis
    proof (cases "response = ''unlock'' \<and> pwd \<noteq> []")
      case False
      have "exclusive ?s1" using w pk by (intro exclusive_idle) simp_all
      then show ?thesis using False dg by (auto simp: Respond on_response_def)
    next
      case True
      let ?s2 = "?s1\<lparr>user_password := Some pwd\<rparr>"
      have "exclusive (callback_success cb ?s2)"
      proof (cases cb)
        case (RunTransaction n)
        show ?thesis unfolding RunTransaction callback_success.simps
          using w pk by (intro exclusive_run_transaction) simp_all
      next
        case RunAurBuild
        with dg d(5) have "visible_child s = pkgbuild_view" by simp
        then have "\<not> btn_back_sensitive s" using d(3) by simp
        then show ?thesis unfolding RunAurBuild callback_success.simps
          using w by (intro exclusive_run_aur_build) simp_all
      qed
      then show ?thesis using True dg by (simp add: Respond on_response_def)
    qed
  next
    case ClickPkgbuildCancel
    with dl have v: "visible_child s = pkgbuild_view" and dg: "dialogs s = []" by simp_all
    then have w: "workers s = []" using idle_view by simp
    show ?thesis unfolding ClickPkgbuildCancel handle.simps on_pkgbuild_cancel_def
      using w dg by (intro exclusive_idle) (simp_all add: Let_def split: option.splits)
  next
    case ClickPkgbuildProceed
    with dl have v: "visible_child s = pkgbuild_view" and dg: "dialogs s = []" by simp_all
    then have w: "workers s = []" using idle_view by simp
    from v have nb: "\<not> btn_back_sensitive s" using d(3) by simp
    show ?thesis
    proof (cases "no_password s")
      case True
      then show ?thesis using v dg w nb
        by (simp add: ClickPkgbuildProceed on_pkgbuild_proceed_def prompt_for_password_def
              exclusive_def)
    next
      case False
      have "exclusive (run_aur_build s)" using w dg nb by (rule exclusive_run_aur_build)
      then show ?thesis using False by (simp add: ClickPkgbuildProceed on_pkgbuild_proceed_def)
    qed
  next
    case ClickCancel
    have "exclusive (on_cancel_clicked s)"
      using ex
      by (simp add: on_cancel_clicked_def send_signal_def append_log_def exclusive_def
            split: option.splits)
    then show ?thesis by (simp add: ClickCancel)
  next
    case ClickBack
    with dl have g: "(visible_child s = progress_view \<and> btn_back_sensitive s)
        \<or> visible_child s = info_view" and dg: "dialogs s = []" by simp_all
    have w: "workers s = []"
    proof (rule ccontr)
      assume "workers s \<noteq> []"
      then have "visible_child s = progress_view \<and> \<not> btn_back_sensitive s" using d(2) by blast
      with g show False by auto
    qed
    show ?thesis unfolding ClickBack handle.simps on_back_clicked_def
      using w dg by (intro exclusive_idle) simp_all
  next
    case ClickViewLog
    with dl have v: "visible_child s = info_view" and dg: "dialogs s = []" by simp_all
    then have w: "workers s = []" using idle_view by simp
    show ?thesis unfolding ClickViewLog handle.simps on_view_log_clicked_def
      using w dg by (intro exclusive_idle) simp_all
  next
    case (Popen j r)
    with dl have "Started j \<in> set (workers s)" by simp
    then have ws: "workers s = [Started j]" by (rule single_worker[OF d(1)])
    then have st: "visible_child s = progress_view" "\<not> btn_back_sensitive s" "dialogs s = []"
      using d(2) by simp_all
    show ?thesis
    proof (cases j)
      case (ShellJob command n)
      note ws = ws[unfolded ShellJob]
      show ?thesis
      proof (cases r)
        case (Inl msg)
        show ?thesis
          unfolding Popen ShellJob Inl handle.simps execute_shell_popen_def sum.case
          using ws st
          by (intro exclusive_idle)
             (simp_all add: on_process_finished_view end_worker_def append_log_def)
      next
        case (Inr p)
        show ?thesis
          unfolding Popen ShellJob Inr handle.simps execute_shell_popen_def sum.case
          using ws st
          by (intro exclusive_working[where w = "Waiting (ShellJob command n) p"]) simp_all
      qed
    next
      case (CloneJob n)
      note ws = ws[unfolded CloneJob]
      show ?thesis
      proof (cases "aur_temp_dir s")
        case None
        show ?thesis
          unfolding Popen CloneJob handle.simps clone_popen_def None option.case
          using ws st
          by (intro exclusive_idle) (simp_all add: show_aur_error_def end_worker_def)
      next
        case (Some dir)
        show ?thesis
        proof (cases r)
          case (Inl msg)
          show ?thesis
            unfolding Popen CloneJob Inl handle.simps clone_popen_def Some option.case sum.case
            using ws st
            by (intro exclusive_idle) (simp_all add: show_aur_error_def end_worker_def)
        next
          case (Inr p)
          show ?thesis
            unfolding Popen CloneJob Inr handle.simps clone_popen_def Some option.case sum.case
            using ws st
            by (intro exclusive_working[where w = "Waiting (CloneJob n) p"]) simp_all
        qed
      qed
    qed
  next
    case (ShellEnds command n p lines fin)
    with dl have "Waiting (ShellJob command n) p \<in> set (workers s)" by simp
    then have ws: "workers s = [Waiting (ShellJob command n) p]"
      by (rule single_worker[OF d(1)])
    then have st: "visible_child s = progress_view" "\<not> btn_back_sensitive s" "dialogs s = []"
      using d(2) by simp_all
    show ?thesis
      unfolding ShellEnds handle.simps execute_shell_wait_def Let_def foldl_append_log
      using ws st
      by (intro exclusive_idle)
         (simp_all add: on_process_finished_view end_worker_def reap_def
            append_log_def split: shell_end.splits)
  next
    case (CloneEnds n p returncode pb)
    with dl have "Waiting (CloneJob n) p \<in> set (workers s)" by simp
    then have ws: "workers s = [Waiting (CloneJob n) p]"
      by (rule single_worker[OF d(1)])
    then have st: "visible_child s = progress_view" "\<not> btn_back_sensitive s" "dialogs s = []"
      using d(2) by simp_all
    show ?thesis
      unfolding CloneEnds handle.simps clone_wait_def Let_def
      using ws st
      by (intro exclusive_idle)
         (simp_all add: show_aur_error_def show_pkgbuild_content_def end_worker_def reap_def
            split: pkgbuild.splits)
  qed
qed

lemma exclusive_ui_step: "exclusive s \<Longrightarrow> exclusive (ui_step e s)"
  by (simp add: ui_step_def exclusive_step)

lemma exclusive_ui_run: "exclusive s \<Longrightarrow> exclusive (ui_run es s)"
  by (induction es arbitrary: s) (simp_all add: exclusive_ui_step)

lemma exclusive_init: "exclusive (init_widget cfg fs frgn cm ds env)"
  by (simp add: exclusive_def init_widget_def)

lemma waiting_pids_append_started [simp]: "waiting_pids (ws @ [Started j]) = waiting_pids ws"
  by (induction ws rule: waiting_pids.induct) simp_all

lemma supervised_run_transaction:
  "supervised s \<Longrightarrow> supervised (run_transaction n s)"
  by (cases rule: run_transaction_cases[of n s]) (simp_all add: supervised_def)

lemma supervised_run_aur_build:
  "supervised s \<Longrightarrow> supervised (run_aur_build s)"
  by (cases rule: run_aur_build_cases[of s]) (simp_all add: supervised_def)

lemma supervised_step:
  assumes ex: "exclusive s" and su: "supervised s" and dl: "deliverable e s" and ok: "read_ok e"
  shows "supervised (handle e s)"
proof (cases e)
  case ClickContinue
  then show ?thesis using su by (simp add: supervised_def)
next
  case (ClickInstall pkg mkdtemp)
  let ?s1 = "s\<lparr>action_type := Some ''install'', target_pkg := Some pkg\<rparr>"
  have s1: "supervised ?s1" using su by (simp add: supervised_def)
  have "supervised (start_aur_review_process (name pkg) mkdtemp ?s1)"
    using su by (simp add: start_aur_review_process_def supervised_def split: option.splits)
  moreover have "supervised (prompt_for_password (RunTransaction (name pkg)) ?s1)"
    using su by (simp add: prompt_for_password_def supervised_def)
  moreover have "supervised (run_transaction (name pkg) ?s1)"
    using s1 by (rule supervised_run_transaction)
  ultimately show ?thesis by (simp add: ClickInstall initiate_install_def Let_def)
next
  case (ClickRemove n)
  let ?s1 = "s\<lparr>action_type := Some ''remove''\<rparr>"
  have s1: "supervised ?s1" using su by (simp add: supervised_def)
  have "supervised (prompt_for_password (RunTransaction n) ?s1)"
    using su by (simp add: prompt_for_password_def supervised_def)
  moreover have "supervised (run_transaction n ?s1)"
    using s1 by (rule supervised_run_transaction)
  ultimately show ?thesis by (simp add: ClickRemove initiate_remove_def Let_def)
next
  case (Respond response pwd)
  show ?thesis
  proof (cases "dialogs s")
    case Nil
    then show ?thesis using su by (simp add: Respond on_response_def)
  next
    case (Cons cb rest)
    let ?s2 = "s\<lparr>dialogs := rest, user_password := Some pwd\<rparr>"
    have s1: "supervised (s\<lparr>dialogs := rest\<rparr>)" using su by (simp add: supervised_def)
    have s2: "supervised ?s2" using su by (simp add: supervised_def)
    have "supervised (callback_success cb ?s2)"
      by (cases cb) (simp_all add: supervised_run_transaction[OF s2] supervised_run_aur_build[OF s2])
    then show ?thesis using s1 Cons by (simp add: Respond on_response_def Let_def)
  qed
next
  case ClickPkgbuildCancel
  then show ?thesis using su
    by (simp add: on_pkgbuild_cancel_def supervised_def Let_def split: option.splits)
next
  case ClickPkgbuildProceed
  have "supervised (prompt_for_password RunAurBuild s)"
    using su by (simp add: prompt_for_password_def supervised_def)
  then show ?thesis
    using supervised_run_aur_build[OF su] by (simp add: ClickPkgbuildProceed on_pkgbuild_proceed_def)
next
  case ClickCancel
  then show ?thesis using su
    by (simp add: on_cancel_clicked_def send_signal_def append_log_def supervised_def
          split: option.splits)
next
  case ClickBack
  then show ?thesis using su by (simp add: on_back_clicked_def supervised_def)
next
  case ClickViewLog
  then show ?thesis using su by (simp add: on_view_log_clicked_def supervised_def)
next
  case (Popen j r)
  with dl have "Started j \<in> set (workers s)" by simp
  then have ws: "workers s = [Started j]" by (rule single_worker[OF exclusive_D(1)[OF ex]])
  with su have ch: "children s = []" by (simp add: supervised_def)
  show ?thesis
  proof (cases j)
    case (ShellJob command n)
    note ws = ws[unfolded ShellJob]
    show ?thesis
      unfolding Popen ShellJob handle.simps execute_shell_popen_def
      using ws ch
      by (simp add: supervised_def on_process_finished_view end_worker_def append_log_def
            split: sum.splits)
  next
    case (CloneJob n)
    note ws = ws[unfolded CloneJob]
    show ?thesis
      unfolding Popen CloneJob handle.simps clone_popen_def
      using ws ch
      by (simp add: supervised_def show_aur_error_def end_worker_def
            split: sum.splits option.splits)
  qed
next
  case (ShellEnds command n p lines fin)
  with dl have "Waiting (ShellJob command n) p \<in> set (workers s)" by simp
  then have ws: "workers s = [Waiting (ShellJob command n) p]"
    by (rule single_worker[OF exclusive_D(1)[OF ex]])
  with su have ch: "map pid (children s) = [p]" by (simp add: supervised_def)
  then have "filter (\<lambda>c. pid c \<noteq> p) (children s) = []"
    by (cases "children s") auto
  moreover from ok ShellEnds obtain rc where "fin = Exit rc" by (cases fin) simp_all
  ultimately show ?thesis
    unfolding ShellEnds handle.simps execute_shell_wait_def Let_def foldl_append_log
    using ws
    by (simp add: supervised_def on_process_finished_view end_worker_def reap_def)
next
  case (CloneEnds n p returncode pb)
  with dl have "Waiting (CloneJob n) p \<in> set (workers s)" by simp
  then have ws: "workers s = [Waiting (CloneJob n) p]"
    by (rule single_worker[OF exclusive_D(1)[OF ex]])
  with su have ch: "map pid (children s) = [p]" by (simp add: supervised_def)
  then have "filter (\<lambda>c. pid c \<noteq> p) (children s) = []"
    by (cases "children s") auto
  then show ?thesis
    unfolding CloneEnds handle.simps clone_wait_def Let_def
    using ws
    by (simp add: supervised_def show_aur_error_def show_pkgbuild_content_def end_worker_def
          reap_def split: pkgbuild.splits)
qed

lemma supervised_ui_run:
  "exclusive s \<Longrightarrow> supervised s \<Longrightarrow> list_all read_ok es \<Longrightarrow> supervised (ui_run es s)"
proof (induction es arbitrary: s)
  case Nil
  then show ?case by simp
next
  case (Cons e es)
  have "exclusive (ui_step e s)" using Cons.prems(1) by (rule exclusive_ui_step)
  moreover have "supervised (ui_step e s)"
    using Cons.prems by (simp add: ui_step_def supervised_step)
  ultimately show ?case using Cons.IH Cons.prems(3) by simp
qed

lemma supervised_init: "supervised (init_widget cfg fs frgn cm ds env)"
  by (simp add: supervised_def init_widget_def)

lemma waiting_pids_length: "length (waiting_pids ws) \<le> length ws"
  by (induction ws rule: waiting_pids.induct) simp_all

text \<open>
  Claim C2, as the code has it. \<^verbatim>\<open>initiate_install\<close> and \<^verbatim>\<open>initiate_remove\<close> never
  read \<^verbatim>\<open>process_in_progress\<close> and reject nothing. Commands are kept apart by the
  pages: a command is started only from the search page, the review page or the
  credential dialog over them, starting it shows the progress page with Back
  insensitive, and only the end of the command leaves that page or makes Back
  sensitive again. So in every run of events that GTK can deliver (a button is clicked
  only while its page is shown and it is sensitive, and the credential dialog is
  modal), from the start of the widget, there is at most one worker thread; and unless
  reading a command's output raises, at most one live child process.
\<close>
theorem pages_keep_commands_apart:
  "length (workers (ui_run es (init_widget cfg fs frgn cm ds env))) \<le> 1 \<and>
   (list_all read_ok es \<longrightarrow>
      length (children (ui_run es (init_widget cfg fs frgn cm ds env))) \<le> 1)"
proof (intro conjI impI)
  let ?s = "ui_run es (init_widget cfg fs frgn cm ds env)"
  have ex: "exclusive ?s" by (rule exclusive_ui_run[OF exclusive_init])
  then show w: "length (workers ?s) \<le> 1" by (rule exclusive_D(1))
  assume "list_all read_ok es"
  then have "supervised ?s" by (rule supervised_ui_run[OF exclusive_init supervised_init])
  then have "length (children ?s) = length (waiting_pids (workers ?s))"
    unfolding supervised_def by (metis length_map)
  with waiting_pids_length[of "workers ?s"] w show "length (children ?s) \<le> 1" by simp
qed

lemma fresh_session_fields:
  "visible_child fresh_session = search_view" "dialogs fresh_session = []"
  "workers fresh_session = []" "children fresh_session = []"
  "user_password fresh_session = None" "files fresh_session = Map.empty"
  "foreign fresh_session = {}" "signals fresh_session = []"
  "action_type fresh_session = None" "dirs fresh_session = {}"
  "btn_back_sensitive fresh_session = False" "process_in_progress fresh_session = False"
  by (simp_all add: fresh_session_def init_widget_def initial_view_def)

lemma removing_foo_fields:
  "workers removing_foo =
     [Waiting (ShellJob (sudo_wrapper @ '' pacman -Rns --noconfirm foo'') ''foo'') 100]"
  "map pid (children removing_foo) = [100]"
  "process_in_progress removing_foo"
  "user_password removing_foo = Some ''secret''"
  "current_process removing_foo = Some 100"
  "visible_child removing_foo = progress_view"
  "signals removing_foo = []"
  "dialogs removing_foo = []"
  "btn_cancel_visible removing_foo"
  "\<not> btn_back_sensitive removing_foo"
  "action_type removing_foo = Some ''remove''"
  by (simp_all add: removing_foo_def ui_step_def initiate_remove_def no_password_def
        prompt_for_password_def fresh_session_fields on_response_def run_transaction_def
        setup_sudo_env_def write_file_def chmod_def script_paths_differ Let_def
        execute_shell_popen_def)

subsection \<open>Cancelling\<close>

lemma run_transaction_keeps:
  "signals (run_transaction n s) = signals s"
  "user_password (run_transaction n s) = user_password s"
  "dialogs (run_transaction n s) = dialogs s"
  "children (run_transaction n s) = children s"
  "dirs (run_transaction n s) = dirs s"
  by (cases rule: run_transaction_cases[of n s]; simp)+

lemma run_aur_build_keeps:
  "signals (run_aur_build s) = signals s"
  "user_password (run_aur_build s) = user_password s"
  "dialogs (run_aur_build s) = dialogs s"
  "children (run_aur_build s) = children s"
  "dirs (run_aur_build s) = dirs s"
  by (cases rule: run_aur_build_cases[of s]; simp)+

lemma callback_success_keeps:
  "signals (callback_success cb s) = signals s"
  "user_password (callback_success cb s) = user_password s"
  "dialogs (callback_success cb s) = dialogs s"
  by (cases cb; simp add: run_transaction_keeps run_aur_build_keeps)+

lemma signals_handle:
  "signals (handle e s) = signals s \<or> (\<exists>q. signals (handle e s) = signals s @ [(Process q, SIGINT)])"
proof (cases e)
  case (ClickInstall pkg mkdtemp)
  then show ?thesis
    by (simp add: initiate_install_def start_aur_review_process_def prompt_for_password_def
          run_transaction_keeps Let_def split: option.splits)
next
  case (ClickRemove n)
  then show ?thesis
    by (simp add: initiate_remove_def prompt_for_password_def run_transaction_keeps Let_def)
next
  case (Respond response pwd)
  then show ?thesis
    by (simp add: on_response_def callback_success_keeps Let_def split: list.splits)
next
  case ClickPkgbuildCancel
  then show ?thesis by (simp add: on_pkgbuild_cancel_def Let_def split: option.splits)
next
  case ClickPkgbuildProceed
  then show ?thesis
    by (simp add: on_pkgbuild_proceed_def prompt_for_password_def run_aur_build_keeps)
next
  case ClickCancel
  then show ?thesis
    by (simp add: on_cancel_clicked_def send_signal_def append_log_def split: option.splits)
next
  case (Popen j r)
  then show ?thesis
    by (cases j)
       (simp_all add: execute_shell_popen_def clone_popen_def on_process_finished_view
          end_worker_def append_log_def show_aur_error_def split: sum.splits option.splits)
next
  case (ShellEnds command n p lines fin)
  then show ?thesis
    unfolding ShellEnds handle.simps execute_shell_wait_def Let_def foldl_append_log
    by (simp add: on_process_finished_view end_worker_def reap_def append_log_def
          split: shell_end.splits)
next
  case (CloneEnds n p returncode pb)
  then show ?thesis
    by (simp add: clone_wait_def show_aur_error_def show_pkgbuild_content_def end_worker_def
          reap_def Let_def split: pkgbuild.splits)
qed (simp_all add: on_back_clicked_def on_view_log_clicked_def)

lemma signals_ui_run:
  "x \<in> set (signals (ui_run es s)) \<Longrightarrow> x \<in> set (signals s) \<or> (\<exists>q. x = (Process q, SIGINT))"
proof (induction es arbitrary: s)
  case Nil
  then show ?case by simp
next
  case (Cons e es)
  then have "x \<in> set (signals (ui_step e s)) \<or> (\<exists>q. x = (Process q, SIGINT))" by simp
  moreover have "signals (ui_step e s) = signals s
      \<or> (\<exists>q. signals (ui_step e s) = signals s @ [(Process q, SIGINT)])"
    using signals_handle[of e s] by (simp add: ui_step_def)
  ultimately show ?case by auto
qed

text \<open>
  Claim C8, as the code has it. When Cancel is clicked while the child of
  \<^verbatim>\<open>current_process\<close> is alive, the widget appends the line
  \<^verbatim>\<open>--- Cancelling operation... ---\<close> to the log and sends \<^verbatim>\<open>SIGINT\<close> to that child
  process (not to a process group); the child and its worker stay as they are. In every
  run of events, every signal the widget sends is \<^verbatim>\<open>SIGINT\<close> to one process: it never
  sends \<^verbatim>\<open>SIGTERM\<close> or \<^verbatim>\<open>SIGKILL\<close>.
\<close>
theorem cancel_interrupts_the_child_process:
  "(current_process s = Some p \<and> p \<in> pid ` set (children s) \<longrightarrow>
      signals (on_cancel_clicked s) = signals s @ [(Process p, SIGINT)] \<and>
      children (on_cancel_clicked s) = children s \<and>
      workers (on_cancel_clicked s) = workers s \<and>
      output_buffer (on_cancel_clicked s) =
        output_buffer s @ [newline] @ ''--- Cancelling operation... ---'' @ [newline]) \<and>
   (\<forall>x \<in> set (signals (ui_run es s)).
      x \<in> set (signals s) \<or> (\<exists>q. x = (Process q, SIGINT)))"
  using signals_ui_run
  by (auto simp: on_cancel_clicked_def send_signal_def append_log_def)

theorem cancel_interrupts_the_child_process_witness:
  "current_process removing_foo = Some 100 \<and>
   signals (on_cancel_clicked removing_foo) = [(Process 100, SIGINT)] \<and>
   map pid (children (on_cancel_clicked removing_foo)) = [100]"
proof -
  have alive: "100 \<in> pid ` set (children removing_foo)"
    using removing_foo_fields(2) by (metis list.set_intros(1) set_map)
  from cancel_interrupts_the_child_process[of removing_foo 100 "[]"] alive
  show ?thesis by (simp add: removing_foo_fields)
qed

text \<open>
  Claim C8 as stated fails in its target: after Cancel during the removal of
  \<^verbatim>\<open>foo\<close>, the one signal sent went to process 100, and none to a process group.
\<close>
theorem cancel_does_not_signal_a_process_group:
  "signals (on_cancel_clicked removing_foo) = [(Process 100, SIGINT)] \<and>
   (ProcessGroup 100, SIGINT) \<notin> set (signals (on_cancel_clicked removing_foo))"
proof -
  have alive: "100 \<in> pid ` set (children removing_foo)"
    using removing_foo_fields(2) by (metis list.set_intros(1) set_map)
  then have "signals (on_cancel_clicked removing_foo) = [(Process 100, SIGINT)]"
    by (simp add: removing_foo_fields on_cancel_clicked_def send_signal_def append_log_def)
  then show ?thesis by simp
qed

subsection \<open>A second intent, and the clone directory\<close>

theorem pages_keep_commands_apart_witness:
  "list_all read_ok
     [ClickRemove ''foo'', Respond ''unlock'' ''secret'',
      Popen (ShellJob (sudo_wrapper @ '' pacman -Rns --noconfirm foo'') ''foo'') (Inr 100)] \<and>
   length (workers removing_foo) \<le> 1 \<and> length (children removing_foo) \<le> 1 \<and>
   map pid (children removing_foo) = [100]"
proof -
  let ?es = "[ClickRemove ''foo'', Respond ''unlock'' ''secret'',
      Popen (ShellJob (sudo_wrapper @ '' pacman -Rns --noconfirm foo'') ''foo'') (Inr 100)]"
  have eq: "ui_run ?es
      (init_widget (Parsed (JObject [(''show_warning'', JBool False)]))
         Map.empty {} (6 * 64 + 4 * 8 + 4) {} Map.empty) = removing_foo"
    by (simp only: removing_foo_def fresh_session_def)
  have ok: "list_all read_ok ?es" by simp
  have "length (workers removing_foo) \<le> 1 \<and>
      (list_all read_ok ?es \<longrightarrow> length (children removing_foo) \<le> 1)"
    using pages_keep_commands_apart
      [of ?es "Parsed (JObject [(''show_warning'', JBool False)])" Map.empty "{}"
          "6 * 64 + 4 * 8 + 4" "{}" Map.empty]
    unfolding eq .
  with ok show ?thesis using removing_foo_fields(2) by simp
qed

text \<open>
  Claim C2 as stated fails: while \<^verbatim>\<open>foo\<close> is being removed (\<^verbatim>\<open>process_in_progress\<close> is
  set and process 100 is alive), \<^verbatim>\<open>initiate_remove\<close> for \<^verbatim>\<open>bar\<close> starts a second worker,
  and when that worker has called \<^verbatim>\<open>Popen\<close> two children are alive.
\<close>

theorem second_intent_is_not_rejected:
  "process_in_progress removing_foo \<and>
   map pid (children removing_foo) = [100] \<and>
   workers (initiate_remove ''bar'' removing_foo) =
     [Waiting (ShellJob (sudo_wrapper @ '' pacman -Rns --noconfirm foo'') ''foo'') 100,
      Started (ShellJob (sudo_wrapper @ '' pacman -Rns --noconfirm bar'') ''bar'')] \<and>
   map pid (children
     (execute_shell_popen (sudo_wrapper @ '' pacman -Rns --noconfirm bar'') ''bar'' (Inr 101)
        (initiate_remove ''bar'' removing_foo))) = [100, 101]"
proof -
  have sn: "snd (setup_sudo_env (removing_foo\<lparr>action_type := Some ''remove''\<rparr>)) = None"
    by (simp add: removing_foo_def ui_step_def initiate_remove_def no_password_def
        prompt_for_password_def fresh_session_fields on_response_def run_transaction_def
        setup_sudo_env_def write_file_def chmod_def script_paths_differ Let_def
        execute_shell_popen_def)
  obtain f where f: "fst (setup_sudo_env (removing_foo\<lparr>action_type := Some ''remove''\<rparr>)) =
      removing_foo\<lparr>action_type := Some ''remove'', files := f\<rparr>"
    using setup_sudo_env_frame by blast
  have se: "setup_sudo_env (removing_foo\<lparr>action_type := Some ''remove''\<rparr>) =
      (removing_foo\<lparr>action_type := Some ''remove'', files := f\<rparr>, None)"
    using sn f by (metis prod.collapse)
  have w: "workers (initiate_remove ''bar'' removing_foo) =
     [Waiting (ShellJob (sudo_wrapper @ '' pacman -Rns --noconfirm foo'') ''foo'') 100,
      Started (ShellJob (sudo_wrapper @ '' pacman -Rns --noconfirm bar'') ''bar'')]"
    and c: "children (initiate_remove ''bar'' removing_foo) = children removing_foo"
    by (simp_all add: initiate_remove_def no_password_def removing_foo_fields
          run_transaction_def se Let_def)
  have "map pid (children
     (execute_shell_popen (sudo_wrapper @ '' pacman -Rns --noconfirm bar'') ''bar'' (Inr 101)
        (initiate_remove ''bar'' removing_foo))) = [100, 101]"
    by (simp add: execute_shell_popen_def c removing_foo_fields)
  then show ?thesis using w by (simp add: removing_foo_fields)
qed

text \<open>
  Claim C4 fails on the fetch path. When the clone exits with a code other than 0,
  \<^verbatim>\<open>show_aur_error\<close> only shows the message: after the user has gone back to the search
  page, the directory that \<^verbatim>\<open>mkdtemp\<close> created is still there, with no worker and no
  child left. The sibling path \<^verbatim>\<open>on_pkgbuild_cancel\<close> removes the directory.
\<close>
theorem fetch_failure_leaves_clone_directory:
  "dirs fetch_failed = {''/tmp/linpama_aur_k3x9''} \<and>
   visible_child fetch_failed = search_view \<and>
   workers fetch_failed = [] \<and> children fetch_failed = [] \<and>
   output_buffer fetch_failed = ''Clone failed or cancelled.'' \<and>
   dirs review_cancelled = {}"
  by (simp add: fetch_failed_def review_cancelled_def yay_def ui_step_def fresh_session_fields
        initiate_install_def start_aur_review_process_def clone_popen_def clone_wait_def
        show_aur_error_def show_pkgbuild_content_def end_worker_def reap_def on_back_clicked_def
        on_pkgbuild_cancel_def Let_def)

subsection \<open>The outcome of a command and the credential\<close>

lemma on_process_finished_report:
  "visible_child (on_process_finished True n s) = info_view"
  "info_text (on_process_finished True n s) =
     (if action_type s = Some ''remove'' then ''Successfully removed '' @ n
      else ''Successfully installed '' @ n)"
  "lbl_progress_status (on_process_finished True n s) = lbl_progress_status s"
  "visible_child (on_process_finished False n s) = visible_child s"
  "info_text (on_process_finished False n s) = info_text s"
  "lbl_progress_status (on_process_finished False n s) = ''Failed or Cancelled.''"
  "btn_back_sensitive (on_process_finished False n s)"
  "output_buffer (on_process_finished False n s) =
     output_buffer s @ [newline, newline] @ ''Transaction Failed.''"
  by (simp_all add: on_process_finished_def append_log_def Let_def split: option.splits)

text \<open>
  Claim C3. \<^verbatim>\<open>success\<close> is true exactly when the child exited with code 0. From any
  state, also one in which Cancel has been clicked, the end of \<^verbatim>\<open>execute_shell\<close> shows
  the result page with the success text when the exit code is 0; for every other exit
  code and when reading raised, it keeps the page, sets the status to
  \<^verbatim>\<open>Failed or Cancelled.\<close>, makes Back sensitive and ends the log with
  \<^verbatim>\<open>Transaction Failed.\<close>; and so it does when \<^verbatim>\<open>Popen\<close> raised.
\<close>
theorem exit_code_decides_outcome:
  "(success fin \<longleftrightarrow> fin = Exit 0) \<and>
   (let s' = execute_shell_wait command pkg_name p lines fin s in
      if fin = Exit 0
      then visible_child s' = info_view \<and>
           info_text s' =
             (if action_type s = Some ''remove'' then ''Successfully removed '' @ pkg_name
              else ''Successfully installed '' @ pkg_name) \<and>
           lbl_progress_status s' = lbl_progress_status s
      else visible_child s' = visible_child s \<and> info_text s' = info_text s \<and>
           lbl_progress_status s' = ''Failed or Cancelled.'' \<and> btn_back_sensitive s' \<and>
           suffix ''Transaction Failed.'' (output_buffer s')) \<and>
   (let s' = execute_shell_popen command pkg_name (Inl msg) s in
      visible_child s' = visible_child s \<and> info_text s' = info_text s \<and>
      lbl_progress_status s' = ''Failed or Cancelled.'' \<and> btn_back_sensitive s' \<and>
      suffix ''Transaction Failed.'' (output_buffer s'))"
proof (intro conjI)
  show "success fin \<longleftrightarrow> fin = Exit 0" by (cases fin) simp_all
  show "let s' = execute_shell_wait command pkg_name p lines fin s in
      if fin = Exit 0
      then visible_child s' = info_view \<and>
           info_text s' =
             (if action_type s = Some ''remove'' then ''Successfully removed '' @ pkg_name
              else ''Successfully installed '' @ pkg_name) \<and>
           lbl_progress_status s' = lbl_progress_status s
      else visible_child s' = visible_child s \<and> info_text s' = info_text s \<and>
           lbl_progress_status s' = ''Failed or Cancelled.'' \<and> btn_back_sensitive s' \<and>
           suffix ''Transaction Failed.'' (output_buffer s')"
  proof (cases fin)
    case (Exit rc)
    show ?thesis
    proof (cases "rc = 0")
      case True
      then show ?thesis
        unfolding Exit execute_shell_wait_def Let_def foldl_append_log
        by (simp add: on_process_finished_report end_worker_def reap_def)
    next
      case False
      then show ?thesis
        unfolding Exit execute_shell_wait_def Let_def foldl_append_log
        by (simp add: on_process_finished_report end_worker_def reap_def suffix_def)
    qed
  next
    case (ReadRaised m)
    show ?thesis
      unfolding ReadRaised execute_shell_wait_def Let_def foldl_append_log
      by (simp add: on_process_finished_report end_worker_def append_log_def suffix_def)
  qed
  show "let s' = execute_shell_popen command pkg_name (Inl msg) s in
      visible_child s' = visible_child s \<and> info_text s' = info_text s \<and>
      lbl_progress_status s' = ''Failed or Cancelled.'' \<and> btn_back_sensitive s' \<and>
      suffix ''Transaction Failed.'' (output_buffer s')"
    by (simp add: execute_shell_popen_def on_process_finished_report end_worker_def
          append_log_def suffix_def)
qed

theorem exit_code_decides_outcome_witness:
  "lbl_progress_status
     (execute_shell_wait (sudo_wrapper @ '' pacman -Rns --noconfirm foo'') ''foo'' 100
        [''error: interrupted''] (Exit 130) (on_cancel_clicked removing_foo)) =
     ''Failed or Cancelled.'' \<and>
   visible_child
     (execute_shell_wait (sudo_wrapper @ '' pacman -Rns --noconfirm foo'') ''foo'' 100
        [''done''] (Exit 0) (on_cancel_clicked removing_foo)) = info_view \<and>
   info_text
     (execute_shell_wait (sudo_wrapper @ '' pacman -Rns --noconfirm foo'') ''foo'' 100
        [''done''] (Exit 0) (on_cancel_clicked removing_foo)) = ''Successfully removed foo''"
proof -
  have a: "action_type (on_cancel_clicked removing_foo) = Some ''remove''"
    by (simp add: on_cancel_clicked_def send_signal_def append_log_def removing_foo_fields
          split: option.splits)
  from exit_code_decides_outcome
    [of "Exit 130" "sudo_wrapper @ '' pacman -Rns --noconfirm foo''" "''foo''" 100
        "[''error: interrupted'']" "on_cancel_clicked removing_foo"]
    exit_code_decides_outcome
    [of "Exit 0" "sudo_wrapper @ '' pacman -Rns --noconfirm foo''" "''foo''" 100
        "[''done'']" "on_cancel_clicked removing_foo"]
  show ?thesis by (simp add: a Let_def)
qed

lemma write_file_pw:
  "write_file q t (s\<lparr>user_password := pw\<rparr>) =
     (case write_file q t s of Inl e \<Rightarrow> Inl e | Inr s' \<Rightarrow> Inr (s'\<lparr>user_password := pw\<rparr>))"
  by (simp add: write_file_def split: option.splits)

lemma chmod_pw:
  "chmod q m (s\<lparr>user_password := pw\<rparr>) =
     (case chmod q m s of Inl e \<Rightarrow> Inl e | Inr s' \<Rightarrow> Inr (s'\<lparr>user_password := pw\<rparr>))"
  by (simp add: chmod_def split: option.splits)

lemma setup_sudo_env_pw:
  "setup_sudo_env (s\<lparr>user_password := pw\<rparr>) =
     (fst (setup_sudo_env s)\<lparr>user_password := pw\<rparr>, snd (setup_sudo_env s))"
  by (simp add: setup_sudo_env_def write_file_pw chmod_pw split: sum.splits)

lemma run_transaction_pw:
  "run_transaction n (s\<lparr>user_password := pw\<rparr>) = (run_transaction n s)\<lparr>user_password := pw\<rparr>"
  by (simp add: run_transaction_def setup_sudo_env_pw Let_def split: prod.splits option.splits)

lemma run_aur_build_pw:
  "run_aur_build (s\<lparr>user_password := pw\<rparr>) = (run_aur_build s)\<lparr>user_password := pw\<rparr>"
  by (simp add: run_aur_build_def setup_sudo_env_pw Let_def split: prod.splits option.splits)

lemma hostile_session_fields:
  "files hostile_session askpass_script = Some \<lparr>content = ''#!/bin/sh'', mode = 7 * 64 + 7 * 8 + 7\<rparr>"
  "files hostile_session sudo_wrapper = None"
  "askpass_script \<in> foreign hostile_session"
  "workers hostile_session = []" "children hostile_session = []"
  "action_type hostile_session = None"
  using script_paths_differ
  by (simp_all add: hostile_session_def init_widget_def)

lemma setup_sudo_env_hostile:
  "setup_sudo_env hostile_session =
     (hostile_session\<lparr>files := (files hostile_session)(askpass_script \<mapsto>
         \<lparr>content = askpass_text, mode = 7 * 64 + 7 * 8 + 7\<rparr>)\<rparr>, Some OSError)"
  by (simp add: setup_sudo_env_def write_file_def chmod_def hostile_session_fields
        other_writable_def)

lemma setup_sudo_env_raised:
  assumes "snd (setup_sudo_env s) \<noteq> None"
  shows "run_transaction n s = fst (setup_sudo_env s)"
    and "run_aur_build s = fst (setup_sudo_env s)"
    and "workers (fst (setup_sudo_env s)) = workers s"
    and "children (fst (setup_sudo_env s)) = children s"
proof -
  obtain s1 e where se: "setup_sudo_env s = (s1, Some e)"
    using assms by (cases "setup_sudo_env s") auto
  show "run_transaction n s = fst (setup_sudo_env s)" by (simp add: run_transaction_def se)
  show "run_aur_build s = fst (setup_sudo_env s)" by (simp add: run_aur_build_def se)
  obtain f where f: "fst (setup_sudo_env s) = s\<lparr>files := f\<rparr>"
    using setup_sudo_env_frame by blast
  show "workers (fst (setup_sudo_env s)) = workers s" by (simp add: f)
  show "children (fst (setup_sudo_env s)) = children s" by (simp add: f)
qed

text \<open>
  Claim C7, as the code has it. When \<^verbatim>\<open>setup_sudo_env\<close> returns without an exception,
  the askpass helper and the wrapper exist with mode \<^verbatim>\<open>0o700\<close> and their fixed texts.
  When \<^verbatim>\<open>open\<close> or \<^verbatim>\<open>os.chmod\<close> raises, \<^verbatim>\<open>run_transaction\<close> and \<^verbatim>\<open>run_aur_build\<close>
  end there: no worker and no child is started. The text of the helper is
  \<^verbatim>\<open>echo "$LINPAMA_SUDO_PW"\<close> after the shebang line. What \<^verbatim>\<open>setup_sudo_env\<close> leaves in
  the files, and the commands that \<^verbatim>\<open>run_transaction\<close> and \<^verbatim>\<open>run_aur_build\<close> hand to
  their workers, are the same whatever the credential is. The child that
  \<^verbatim>\<open>execute_shell\<close> starts gets the credential in its environment, under that variable,
  and the command as it was given.
\<close>

theorem helper_scripts_hold_no_credential:
  "(snd (setup_sudo_env s) = None \<longrightarrow>
      files (fst (setup_sudo_env s)) askpass_script =
        Some \<lparr>content = askpass_text, mode = mode_0o700\<rparr> \<and>
      files (fst (setup_sudo_env s)) sudo_wrapper =
        Some \<lparr>content = wrapper_text, mode = mode_0o700\<rparr>) \<and>
   (snd (setup_sudo_env s) \<noteq> None \<longrightarrow>
      run_transaction n s = fst (setup_sudo_env s) \<and>
      run_aur_build s = fst (setup_sudo_env s) \<and>
      workers (fst (setup_sudo_env s)) = workers s \<and>
      children (fst (setup_sudo_env s)) = children s) \<and>
   askpass_text =
     ''#!/bin/sh'' @ [newline] @ ''echo '' @ [dquote] @ ''$LINPAMA_SUDO_PW'' @ [dquote] @ [newline] \<and>
   files (fst (setup_sudo_env (s\<lparr>user_password := pw\<rparr>))) = files (fst (setup_sudo_env s)) \<and>
   workers (run_transaction n (s\<lparr>user_password := pw\<rparr>)) = workers (run_transaction n s) \<and>
   workers (run_aur_build (s\<lparr>user_password := pw\<rparr>)) = workers (run_aur_build s) \<and>
   (user_password s = Some secret \<and> secret \<noteq> [] \<longrightarrow>
      (let c = last (children (execute_shell_popen command pkg_name (Inr p) s)) in
         argv c = [''/bin/sh'', ''-c'', command] \<and>
         child_env c = (environ s)(env_var_name \<mapsto> secret)))"
proof (intro conjI impI)
  assume "snd (setup_sudo_env s) = None"
  then show "files (fst (setup_sudo_env s)) askpass_script =
        Some \<lparr>content = askpass_text, mode = mode_0o700\<rparr>"
    and "files (fst (setup_sudo_env s)) sudo_wrapper =
        Some \<lparr>content = wrapper_text, mode = mode_0o700\<rparr>"
    using setup_sudo_env_ok by blast+
next
  assume r: "snd (setup_sudo_env s) \<noteq> None"
  show "run_transaction n s = fst (setup_sudo_env s)" using r by (rule setup_sudo_env_raised)
  show "run_aur_build s = fst (setup_sudo_env s)" using r by (rule setup_sudo_env_raised)
  show "workers (fst (setup_sudo_env s)) = workers s" using r by (rule setup_sudo_env_raised)
  show "children (fst (setup_sudo_env s)) = children s" using r by (rule setup_sudo_env_raised)
next
  show "askpass_text =
     ''#!/bin/sh'' @ [newline] @ ''echo '' @ [dquote] @ ''$LINPAMA_SUDO_PW'' @ [dquote] @ [newline]"
    by (rule askpass_text_constant)
  show "files (fst (setup_sudo_env (s\<lparr>user_password := pw\<rparr>))) = files (fst (setup_sudo_env s))"
    by (simp add: setup_sudo_env_pw)
  show "workers (run_transaction n (s\<lparr>user_password := pw\<rparr>)) = workers (run_transaction n s)"
    by (simp add: run_transaction_pw)
  show "workers (run_aur_build (s\<lparr>user_password := pw\<rparr>)) = workers (run_aur_build s)"
    by (simp add: run_aur_build_pw)
next
  assume "user_password s = Some secret \<and> secret \<noteq> []"
  then show "let c = last (children (execute_shell_popen command pkg_name (Inr p) s)) in
         argv c = [''/bin/sh'', ''-c'', command] \<and>
         child_env c = (environ s)(env_var_name \<mapsto> secret)"
    by (simp add: execute_shell_popen_def execute_shell_env_def)
qed

theorem helper_scripts_hold_no_credential_witness:
  "snd (setup_sudo_env fresh_session) = None \<and>
   files (fst (setup_sudo_env fresh_session)) askpass_script =
     Some \<lparr>content = askpass_text, mode = mode_0o700\<rparr> \<and>
   files (fst (setup_sudo_env fresh_session)) sudo_wrapper =
     Some \<lparr>content = wrapper_text, mode = mode_0o700\<rparr> \<and>
   snd (setup_sudo_env hostile_session) = Some OSError \<and>
   workers (run_transaction ''foo'' hostile_session) = [] \<and>
   children (run_transaction ''foo'' hostile_session) = [] \<and>
   user_password removing_foo = Some ''secret'' \<and>
   child_env
     (last (children (execute_shell_popen ''true'' ''foo'' (Inr 7) removing_foo))) env_var_name =
     Some ''secret''"
proof -
  have sn: "snd (setup_sudo_env fresh_session) = None"
    by (simp add: setup_sudo_env_def write_file_def chmod_def fresh_session_fields
          script_paths_differ)
  have sh: "snd (setup_sudo_env hostile_session) = Some OSError"
    by (simp add: setup_sudo_env_hostile)
  from helper_scripts_hold_no_credential[of fresh_session "''foo''" "Some ''x''" "''y''" "''true''" "''foo''" 7]
    helper_scripts_hold_no_credential[of hostile_session "''foo''" "Some ''x''" "''y''" "''true''" "''foo''" 7]
    helper_scripts_hold_no_credential[of removing_foo "''foo''" "Some ''x''" "''secret''" "''true''" "''foo''" 7]
  show ?thesis using sn sh by (simp add: removing_foo_fields hostile_session_fields Let_def)
qed

text \<open>
  Claim C7 as stated fails for some invocations: when another user already owns a
  file of mode \<^verbatim>\<open>0o777\<close> at the path of the askpass helper, \<^verbatim>\<open>open\<close> succeeds and
  \<^verbatim>\<open>os.chmod\<close> raises; the helper text is then in a file that keeps mode \<^verbatim>\<open>0o777\<close>, and
  the wrapper is not written.
\<close>

theorem foreign_helper_keeps_its_mode:
  "snd (setup_sudo_env hostile_session) = Some OSError \<and>
   files (fst (setup_sudo_env hostile_session)) askpass_script =
     Some \<lparr>content = askpass_text, mode = 7 * 64 + 7 * 8 + 7\<rparr> \<and>
   mode_0o700 \<noteq> 7 * 64 + 7 * 8 + 7 \<and>
   files (fst (setup_sudo_env hostile_session)) sudo_wrapper = None"
  using script_paths_differ
  by (simp add: setup_sudo_env_hostile hostile_session_fields mode_0o700_def)






end
